theory Spec2Isabelle
  imports Main
begin

section \<open>The rule compiler and the seven matchers of \<open>core/check.go\<close>\<close>

text \<open>
  Strings are byte lists (\<open>len\<close> and every offset of the source count bytes).
  A run-time panic of the source (an index or a slice out of range, \<open>MustCompile\<close> on
  an invalid pattern) is the \<open>Inl\<close> branch of a result; \<open>Inr\<close> is a normal return.
\<close>

datatype panic = IndexOutOfRange | SliceBoundsOutOfRange | MustCompilePanic string

subsection \<open>Data model\<close>

text \<open>
  \<open>rule_definition\<close> is the struct \<open>definition\<close> of the source. \<open>If_d\<close> and \<open>Max_d\<close> are the fields \<open>If\<close> and
  \<open>Max\<close>. \<open>Map\<close> is a Go map: the list holds its entries (distinct keys) in the order in
  which the single \<open>range\<close> loop of a builder visits them; Go does not fix that order.
\<close>

record rule_definition =
  Description :: string
  Exceptions :: "string list"
  Exe :: string
  If_d :: string
  Ignorecase :: bool
  Level :: string
  Link :: string
  Map :: "(string \<times> string) list"
  Max_d :: int
  Message :: string
  Name :: string
  Negate :: bool
  Nonword :: bool
  Raw :: "string list"
  Runtime :: string
  Scope :: string
  Then :: string
  Tokens :: "string list"
  Type :: string

text \<open>The fields of \<open>Alert\<close> that this file sets.\<close>

record alert =
  Check :: string
  Severity :: string
  Span :: "int list"
  Link_a :: string
  Message_a :: string
  Description_a :: string

text \<open>\<open>doc_file\<close>: the fields of the struct \<open>File\<close> that the source reads and writes.\<close>

record doc_file =
  NormedExt :: string
  Sequences :: "string list"

text \<open>
  A \<open>ruleFn\<close> is a closure of the source; the model keeps what each closure captures.
\<close>

datatype 're ruleFn =
    RConditional rule_definition "'re list"
  | RConsistency rule_definition 're "string list"
  | RExistence rule_definition 're
  | ROccurrence rule_definition 're int
  | RRepetition rule_definition 're
  | RScript rule_definition string
  | RSubstitution rule_definition 're "string list"

record 're check =
  extends :: string
  level :: int
  rule :: "'re ruleFn"
  scope :: string

text \<open>
  What the file takes from outside: the libraries \<open>regexp\<close>, \<open>strings\<close>, \<open>fmt\<close>, \<open>yaml\<close>,
  \<open>json\<close>, \<open>os/exec\<close> and the collaborator tables of package \<open>util\<close>. \<open>'re\<close> is
  \<open>*regexp.Regexp\<close>.
  \<^item> \<open>Compile\<close>: \<open>regexp.Compile\<close>, \<open>Inl\<close> the error.
  \<^item> \<open>FindAllStringSubmatchIndex\<close>: one entry per match, in document order: the span of
    the match, then the span of each capture group, \<open>(-1, -1)\<close> for a group that did not
    participate.
  \<^item> \<open>Sprintf1 fmt a\<close>: \<open>fmt.Sprintf(fmt, a)\<close> for a format that is not a constant.
  \<^item> \<open>Output k runtime exe txt\<close>: \<open>exec.Command(runtime, exe, txt).Output()\<close>, run when
    \<open>k\<close> external processes have been run before. A process reads the clock, the disk
    and the network, so what it prints is not determined by its arguments: the number
    of the run stands for the state of the world it finds, and \<open>Output\<close> may give a
    different result at every \<open>k\<close>.
  \<^item> \<open>json_Unmarshal out as\<close>: \<open>json.Unmarshal(out, &as)\<close>, the list afterwards and the
    error.
  \<^item> \<open>yaml_Unmarshal file d\<close>: \<open>yaml.Unmarshal(file, &d)\<close>.
\<close>

record 're env =
  Compile :: "string \<Rightarrow> string + 're"
  FindAllStringSubmatchIndex :: "'re \<Rightarrow> string \<Rightarrow> ((int \<times> int) \<times> (int \<times> int) list) list"
  SubexpNames :: "'re \<Rightarrow> string list"
  TrimSpace :: "string \<Rightarrow> string"
  Sprintf1 :: "string \<Rightarrow> string \<Rightarrow> string"
  FormatMessage :: "string \<Rightarrow> string list \<Rightarrow> string"
  MatchIgnoreByByExtension :: "string \<rightharpoonup> string"
  LevelToInt :: "string \<rightharpoonup> int"
  StylesPath :: string
  filepath_Join :: "string list \<Rightarrow> string"
  FileExists :: "string \<Rightarrow> bool"
  Output :: "nat \<Rightarrow> string \<Rightarrow> string \<Rightarrow> string \<Rightarrow> string \<times> string option"
  json_Unmarshal :: "string \<Rightarrow> alert list \<Rightarrow> alert list \<times> string option"
  yaml_Unmarshal :: "string \<Rightarrow> rule_definition \<Rightarrow> string + rule_definition"

text \<open>
  The process-wide state of loading: the registry \<open>AllChecks\<close> and what has been
  reported so far.
\<close>

record 're loader =
  AllChecks :: "string \<rightharpoonup> 're check"
  reported :: "string list"

subsection \<open>Library functions with a fixed meaning\<close>

definition bslash :: char where
  "bslash = CHR 0x5C"

definition ignoreCase :: string where
  "ignoreCase = ''(?i)''"

text \<open>\<open>fmt.Sprintf(wordTemplate, s)\<close> and \<open>fmt.Sprintf(nonwordTemplate, s)\<close>.\<close>

definition wordTemplate :: "string \<Rightarrow> string" where
  "wordTemplate s = [bslash] @ ''b(?:'' @ s @ '')'' @ [bslash] @ ''b''"

definition nonwordTemplate :: "string \<Rightarrow> string" where
  "nonwordTemplate s = ''(?:'' @ s @ '')''"

text \<open>\<open>s[lo:hi]\<close>, which panics unless \<open>0 \<le> lo \<le> hi \<le> len(s)\<close>.\<close>

definition slice :: "string \<Rightarrow> int \<Rightarrow> int \<Rightarrow> panic + string" where
  "slice s lo hi =
     (if 0 \<le> lo \<and> lo \<le> hi \<and> hi \<le> int (length s)
      then Inr (take (nat hi - nat lo) (drop (nat lo) s))
      else Inl SliceBoundsOutOfRange)"

text \<open>The text of a span inside the library, where the span is the library's own.\<close>

definition substr :: "string \<Rightarrow> int \<times> int \<Rightarrow> string" where
  "substr s loc = take (nat (snd loc) - nat (fst loc)) (drop (nat (fst loc)) s)"

text \<open>
  \<open>strings.Replace(s, old, new, -1)\<close> on bytes: every non-overlapping instance of \<open>old\<close>,
  from the left. For an empty \<open>old\<close> Go inserts \<open>new\<close> before every rune and at the end;
  this file reaches that case with an empty \<open>new\<close> only, where runes and bytes agree.
\<close>

fun Replace :: "string \<Rightarrow> string \<Rightarrow> string \<Rightarrow> string" where
  "Replace [] old new = (if old = [] then new else [])"
| "Replace (c # cs) old new =
     (if old = [] then new @ c # Replace cs old new
      else if take (length old) (c # cs) = old
           then new @ Replace (drop (length old - 1) cs) old new
           else c # Replace cs old new)"

text \<open>\<open>strings.Count(s, sub)\<close> for a non-empty \<open>sub\<close>: non-overlapping instances.\<close>

fun Count :: "string \<Rightarrow> string \<Rightarrow> nat" where
  "Count [] sub = 0"
| "Count (c # cs) sub =
     (if sub \<noteq> [] \<and> take (length sub) (c # cs) = sub
      then Suc (Count (drop (length sub - 1) cs) sub)
      else Count cs sub)"

text \<open>\<open>strings.Split(s, ".")\<close>: always at least one part.\<close>

fun Split_dot :: "string \<Rightarrow> string list" where
  "Split_dot [] = [[]]"
| "Split_dot (c # cs) =
     (if c = CHR ''.'' then [] # Split_dot cs
      else (case Split_dot cs of p # ps \<Rightarrow> (c # p) # ps | [] \<Rightarrow> [[c]]))"

text \<open>\<open>strings.Join(xs, sep)\<close>.\<close>

fun Join :: "string list \<Rightarrow> string \<Rightarrow> string" where
  "Join [] sep = []"
| "Join [x] sep = x"
| "Join (x # y # ys) sep = x @ sep @ Join (y # ys) sep"

text \<open>\<open>strings.TrimRight(s, "|")\<close>.\<close>

definition TrimRight_bar :: "string \<Rightarrow> string" where
  "TrimRight_bar s = rev (dropWhile (\<lambda>c. c = CHR ''|'') (rev s))"

text \<open>\<open>%d\<close> of \<open>fmt.Sprintf\<close> for an \<open>int\<close>.\<close>

fun digits :: "nat \<Rightarrow> string" where
  "digits n =
     (if n < 10 then [char_of (48 + n)]
      else digits (n div 10) @ [char_of (48 + n mod 10)])"

definition itoa :: "int \<Rightarrow> string" where
  "itoa i = (if i < 0 then CHR ''-'' # digits (nat (- i)) else digits (nat i))"

text \<open>The methods of \<open>*regexp.Regexp\<close> that the library derives from the submatch index.\<close>

definition FindAllStringIndex :: "'re env \<Rightarrow> 're \<Rightarrow> string \<Rightarrow> (int \<times> int) list" where
  "FindAllStringIndex env r s = map fst (FindAllStringSubmatchIndex env r s)"

definition FindAllString :: "'re env \<Rightarrow> 're \<Rightarrow> string \<Rightarrow> string list" where
  "FindAllString env r s = map (substr s) (FindAllStringIndex env r s)"

definition group_text :: "string \<Rightarrow> int \<times> int \<Rightarrow> string" where
  "group_text s g = (if fst g = -1 then [] else substr s g)"

definition FindAllStringSubmatch :: "'re env \<Rightarrow> 're \<Rightarrow> string \<Rightarrow> string list list" where
  "FindAllStringSubmatch env r s =
     map (\<lambda>m. substr s (fst m) # map (group_text s) (snd m)) (FindAllStringSubmatchIndex env r s)"

definition MatchString :: "'re env \<Rightarrow> 're \<Rightarrow> string \<Rightarrow> bool" where
  "MatchString env r s = (FindAllStringSubmatchIndex env r s \<noteq> [])"

text \<open>One element of \<open>[][]int\<close> as the source sees it: \<open>[s, e, g1s, g1e, ...]\<close>.\<close>

definition flat :: "(int \<times> int) \<times> (int \<times> int) list \<Rightarrow> int list" where
  "flat m = fst (fst m) # snd (fst m) # concat (map (\<lambda>g. [fst g, snd g]) (snd m))"

definition loc_of :: "int \<times> int \<Rightarrow> int list" where
  "loc_of l = [fst l, snd l]"

subsection \<open>Package \<open>util\<close>\<close>

text \<open>
  Modelled from the spec: \<open>util.StringInSlice\<close> is not in the source file. The spec
  reads it as "is already present in the sequence" and "is listed in the exception set".
\<close>

definition StringInSlice :: "string \<Rightarrow> string list \<Rightarrow> bool" where
  "StringInSlice a xs = List.member xs a"

text \<open>
  Modelled from the spec: \<open>util.AllStringsInSlice\<close> is not in the source file. The spec
  reads it as "both names of a specific configured pair appear anywhere in the accumulated
  sequence".
\<close>

definition AllStringsInSlice :: "string list \<Rightarrow> string list \<Rightarrow> bool" where
  "AllStringsInSlice strs xs = list_all (\<lambda>s. StringInSlice s xs) strs"

text \<open>
  Modelled from the spec: \<open>util.CheckError\<close> is not in the source file. The spec reads it
  as "error reported" and the callers continue when it returns true: it is true when there
  is no error, and an error is reported (appended to what has been reported).
\<close>

definition CheckError :: "string option \<Rightarrow> string list \<Rightarrow> bool \<times> string list" where
  "CheckError err rep = (case err of None \<Rightarrow> (True, rep) | Some e \<Rightarrow> (False, rep @ [e]))"

text \<open>
  Modelled from the spec: \<open>util.AlertLevels\<close> is not in the source file. The spec lists the
  severity levels suggestion, warning and error.
\<close>

definition AlertLevels :: "string list" where
  "AlertLevels = [''suggestion'', ''warning'', ''error'']"

subsection \<open>Masking\<close>

definition url_regex :: string where
  "url_regex = ''((?:https?|ftp)://[^'' @ [bslash] @ ''s/$.?#].[^'' @ [bslash] @ ''s]*)''"

definition mask_one :: "string \<Rightarrow> string \<Rightarrow> string" where
  "mask_one txt s = Replace txt s (replicate (length s) CHR ''*'')"

definition cleanText :: "'re env \<Rightarrow> string \<Rightarrow> string \<Rightarrow> panic + string" where
  "cleanText env ext txt =
     (let regex = url_regex @ (case MatchIgnoreByByExtension env ext of
                                 Some s \<Rightarrow> ''|'' @ s | None \<Rightarrow> [])
      in case Compile env regex of
           Inl e \<Rightarrow> Inl (MustCompilePanic e)
         | Inr inline \<Rightarrow> Inr (foldl mask_one txt (FindAllString env inline txt)))"

subsection \<open>Alerts\<close>

definition formatMessages :: "'re env \<Rightarrow> string \<Rightarrow> string \<Rightarrow> string list \<Rightarrow> string \<times> string" where
  "formatMessages env msg desc subs = (FormatMessage env msg subs, FormatMessage env desc subs)"

definition makeAlert :: "'re env \<Rightarrow> rule_definition \<Rightarrow> int list \<Rightarrow> string \<Rightarrow> panic + alert" where
  "makeAlert env chk loc txt =
     (if length loc < 2 then Inl IndexOutOfRange
      else case slice txt (loc ! 0) (loc ! 1) of
             Inl p \<Rightarrow> Inl p
           | Inr s \<Rightarrow>
               Inr \<lparr>Check = Name chk, Severity = Level chk, Span = loc, Link_a = Link chk,
                    Message_a = fst (formatMessages env (Message chk) (Description chk) [s]),
                    Description_a = snd (formatMessages env (Message chk) (Description chk) [s])\<rparr>)"

subsection \<open>The matchers\<close>

text \<open>The loop of \<open>conditional\<close> over the matches of \<open>r[1]\<close>.\<close>

fun conditional_locs ::
  "'re env \<Rightarrow> rule_definition \<Rightarrow> string \<Rightarrow> string list \<Rightarrow> (int \<times> int) list \<Rightarrow> alert list
     \<Rightarrow> panic + alert list" where
  "conditional_locs env chk txt seqs [] alerts = Inr alerts"
| "conditional_locs env chk txt seqs (loc # locs) alerts =
     (case slice txt (fst loc) (snd loc) of
        Inl p \<Rightarrow> Inl p
      | Inr s \<Rightarrow>
          if \<not> StringInSlice s seqs \<and> \<not> StringInSlice s (Exceptions chk)
          then (case makeAlert env chk (loc_of loc) txt of
                  Inl p \<Rightarrow> Inl p
                | Inr a \<Rightarrow> conditional_locs env chk txt seqs locs (alerts @ [a]))
          else conditional_locs env chk txt seqs locs alerts)"

text \<open>The loop of \<open>conditional\<close> over the matches of \<open>r[0]\<close>.\<close>

definition conditional_defs :: "string list \<Rightarrow> string list list \<Rightarrow> string list" where
  "conditional_defs seqs definitions =
     foldl (\<lambda>sq def. if length def > 1 then sq @ [def ! 1] else sq) seqs definitions"

definition conditional ::
  "'re env \<Rightarrow> string \<Rightarrow> rule_definition \<Rightarrow> doc_file \<Rightarrow> 're list \<Rightarrow> panic + alert list \<times> doc_file" where
  "conditional env txt0 chk f r =
     (case cleanText env (NormedExt f) txt0 of
        Inl p \<Rightarrow> Inl p
      | Inr txt \<Rightarrow>
          (case r of
             [] \<Rightarrow> Inl IndexOutOfRange
           | r0 # rs \<Rightarrow>
               (let f' = f\<lparr>Sequences :=
                            conditional_defs (Sequences f) (FindAllStringSubmatch env r0 txt)\<rparr>
                in case rs of
                     [] \<Rightarrow> Inl IndexOutOfRange
                   | r1 # _ \<Rightarrow>
                       (case conditional_locs env chk txt (Sequences f')
                               (FindAllStringIndex env r1 txt) [] of
                          Inl p \<Rightarrow> Inl p
                        | Inr alerts \<Rightarrow> Inr (alerts, f')))))"

fun existence_locs ::
  "'re env \<Rightarrow> rule_definition \<Rightarrow> string \<Rightarrow> (int \<times> int) list \<Rightarrow> alert list \<Rightarrow> panic + alert list" where
  "existence_locs env chk txt [] alerts = Inr alerts"
| "existence_locs env chk txt (loc # locs) alerts =
     (case makeAlert env chk (loc_of loc) txt of
        Inl p \<Rightarrow> Inl p
      | Inr a \<Rightarrow> existence_locs env chk txt locs (alerts @ [a]))"

definition existence ::
  "'re env \<Rightarrow> string \<Rightarrow> rule_definition \<Rightarrow> doc_file \<Rightarrow> 're \<Rightarrow> panic + alert list \<times> doc_file" where
  "existence env txt chk f r =
     (case cleanText env (NormedExt f) txt of
        Inl p \<Rightarrow> Inl p
      | Inr masked \<Rightarrow>
          (case existence_locs env chk txt (FindAllStringIndex env r masked) [] of
             Inl p \<Rightarrow> Inl p
           | Inr alerts \<Rightarrow> Inr (alerts, f)))"

definition occurrence ::
  "'re env \<Rightarrow> string \<Rightarrow> rule_definition \<Rightarrow> doc_file \<Rightarrow> 're \<Rightarrow> int \<Rightarrow> panic + alert list \<times> doc_file" where
  "occurrence env txt chk f r lim =
     (case cleanText env (NormedExt f) txt of
        Inl p \<Rightarrow> Inl p
      | Inr masked \<Rightarrow>
          (let locs = FindAllStringIndex env r masked;
               occurrences = int (length locs)
           in if occurrences > lim
              then (case locs of
                      [] \<Rightarrow> Inl IndexOutOfRange
                    | l0 # _ \<Rightarrow>
                        Inr ([\<lparr>Check = Name chk, Severity = Level chk,
                               Span = [fst l0, snd (last locs)], Link_a = Link chk,
                               Message_a = Message chk, Description_a = Description chk\<rparr>], f))
              else Inr ([], f)))"

text \<open>
  The loop of \<open>repetition\<close>; \<open>prev\<close>, \<open>ploc\<close> and \<open>count\<close> are the variables of the source.
\<close>

fun repetition_locs ::
  "'re env \<Rightarrow> rule_definition \<Rightarrow> string \<Rightarrow> (int \<times> int) list \<Rightarrow> string \<Rightarrow> int list \<Rightarrow> int
     \<Rightarrow> alert list \<Rightarrow> panic + alert list" where
  "repetition_locs env chk txt [] prev ploc count alerts = Inr alerts"
| "repetition_locs env chk txt (loc # locs) prev ploc count alerts =
     (case slice txt (fst loc) (snd loc) of
        Inl p \<Rightarrow> Inl p
      | Inr s \<Rightarrow>
          (let curr = TrimSpace env s;
               hit = (curr = prev \<and> curr \<noteq> []);
               count1 = (if hit then count + 1 else count)
           in if hit \<and> count1 > Max_d chk
              then (case ploc of
                      [] \<Rightarrow> Inl IndexOutOfRange
                    | p0 # _ \<Rightarrow>
                        repetition_locs env chk txt locs curr (loc_of loc) 0
                          (alerts @
                           [\<lparr>Check = Name chk, Severity = Level chk, Span = [p0, snd loc],
                             Link_a = Link chk,
                             Message_a =
                               fst (formatMessages env (Message chk) (Description chk) [curr]),
                             Description_a =
                               snd (formatMessages env (Message chk) (Description chk) [curr])\<rparr>]))
              else repetition_locs env chk txt locs curr (loc_of loc) count1 alerts))"

definition repetition ::
  "'re env \<Rightarrow> string \<Rightarrow> rule_definition \<Rightarrow> doc_file \<Rightarrow> 're \<Rightarrow> panic + alert list \<times> doc_file" where
  "repetition env txt chk f r =
     (case repetition_locs env chk txt (FindAllStringIndex env r txt) [] [] 0 [] of
        Inl p \<Rightarrow> Inl p
      | Inr alerts \<Rightarrow> Inr (alerts, f))"

text \<open>
  The inner loop of \<open>substitution\<close>, \<open>for idx, mat := range submat\<close>, over the indices that
  are left.
\<close>

fun substitution_idx ::
  "'re env \<Rightarrow> rule_definition \<Rightarrow> string \<Rightarrow> string list \<Rightarrow> int list \<Rightarrow> nat list \<Rightarrow> alert list
     \<Rightarrow> panic + alert list" where
  "substitution_idx env chk txt repl submat [] alerts = Inr alerts"
| "substitution_idx env chk txt repl submat (idx # idxs) alerts =
     (if submat ! idx \<noteq> -1 \<and> idx > 0 \<and> idx mod 2 = 0
      then (if \<not> idx + 1 < length submat then Inl IndexOutOfRange
            else if \<not> idx div 2 - 1 < length repl then Inl IndexOutOfRange
            else case slice txt (submat ! idx) (submat ! (idx + 1)) of
                   Inl p \<Rightarrow> Inl p
                 | Inr s \<Rightarrow>
                     substitution_idx env chk txt repl submat idxs
                       (alerts @
                        [\<lparr>Check = Name chk, Severity = Level chk,
                          Span = [submat ! idx, submat ! (idx + 1)], Link_a = Link chk,
                          Message_a =
                            fst (formatMessages env (Message chk) (Description chk)
                                   [repl ! (idx div 2 - 1), s]),
                          Description_a =
                            snd (formatMessages env (Message chk) (Description chk)
                                   [repl ! (idx div 2 - 1), s])\<rparr>]))
      else substitution_idx env chk txt repl submat idxs alerts)"

fun substitution_matches ::
  "'re env \<Rightarrow> rule_definition \<Rightarrow> string \<Rightarrow> string list \<Rightarrow> ((int \<times> int) \<times> (int \<times> int) list) list
     \<Rightarrow> alert list \<Rightarrow> panic + alert list" where
  "substitution_matches env chk txt repl [] alerts = Inr alerts"
| "substitution_matches env chk txt repl (m # ms) alerts =
     (case substitution_idx env chk txt repl (flat m) [0..<length (flat m)] alerts of
        Inl p \<Rightarrow> Inl p
      | Inr alerts' \<Rightarrow> substitution_matches env chk txt repl ms alerts')"

definition substitution ::
  "'re env \<Rightarrow> string \<Rightarrow> rule_definition \<Rightarrow> doc_file \<Rightarrow> 're \<Rightarrow> string list
     \<Rightarrow> panic + alert list \<times> doc_file" where
  "substitution env txt0 chk f r repl =
     (if \<not> MatchString env r txt0 then Inr ([], f)
      else case cleanText env (NormedExt f) txt0 of
             Inl p \<Rightarrow> Inl p
           | Inr txt \<Rightarrow>
               (case substitution_matches env chk txt repl
                       (FindAllStringSubmatchIndex env r txt) [] of
                  Inl p \<Rightarrow> Inl p
                | Inr alerts \<Rightarrow> Inr (alerts, f)))"

text \<open>
  The inner loop of \<open>consistency\<close>; the state is \<open>loc\<close> and \<open>f.Sequences\<close>, \<open>names\<close> is
  \<open>r.SubexpNames()\<close>.
\<close>

fun consistency_idx ::
  "string list \<Rightarrow> int list \<Rightarrow> nat list \<Rightarrow> int list \<times> string list
     \<Rightarrow> panic + int list \<times> string list" where
  "consistency_idx names submat [] st = Inr st"
| "consistency_idx names submat (idx # idxs) st =
     (if submat ! idx \<noteq> -1 \<and> idx > 0 \<and> idx mod 2 = 0
      then (if \<not> idx + 1 < length submat then Inl IndexOutOfRange
            else if \<not> idx div 2 < length names then Inl IndexOutOfRange
            else consistency_idx names submat idxs
                   ([submat ! idx, submat ! (idx + 1)], snd st @ [names ! (idx div 2)]))
      else consistency_idx names submat idxs st)"

fun consistency_matches ::
  "string list \<Rightarrow> ((int \<times> int) \<times> (int \<times> int) list) list \<Rightarrow> int list \<times> string list
     \<Rightarrow> panic + int list \<times> string list" where
  "consistency_matches names [] st = Inr st"
| "consistency_matches names (m # ms) st =
     (case consistency_idx names (flat m) [0..<length (flat m)] st of
        Inl p \<Rightarrow> Inl p
      | Inr st' \<Rightarrow> consistency_matches names ms st')"

definition consistency ::
  "'re env \<Rightarrow> string \<Rightarrow> rule_definition \<Rightarrow> doc_file \<Rightarrow> 're \<Rightarrow> string list
     \<Rightarrow> panic + alert list \<times> doc_file" where
  "consistency env txt0 chk f r opts =
     (case cleanText env (NormedExt f) txt0 of
        Inl p \<Rightarrow> Inl p
      | Inr txt \<Rightarrow>
          (let matches = FindAllStringSubmatchIndex env r txt
           in case consistency_matches (SubexpNames env r) matches ([], Sequences f) of
                Inl p \<Rightarrow> Inl p
              | Inr st \<Rightarrow>
                  if matches \<noteq> [] \<and> AllStringsInSlice opts (snd st)
                  then (case makeAlert env chk (fst st) txt of
                          Inl p \<Rightarrow> Inl p
                        | Inr a \<Rightarrow> Inr ([a], f\<lparr>Sequences := snd st\<rparr>))
                  else Inr ([], f\<lparr>Sequences := snd st\<rparr>)))"

text \<open>
  \<open>script\<close> returns its alerts and what has been reported; it does not touch the file.
  It runs one external process: \<open>k\<close> is the number of processes run before.
\<close>

definition script ::
  "'re env \<Rightarrow> string \<Rightarrow> rule_definition \<Rightarrow> string \<Rightarrow> doc_file \<Rightarrow> string list \<Rightarrow> nat
     \<Rightarrow> alert list \<times> string list" where
  "script env txt chkDef exe f rep k =
     (let res = Output env k (Runtime chkDef) exe txt;
          c1 = CheckError (snd res) rep
      in if fst c1
         then (let dec = json_Unmarshal env (fst res) [];
                   c2 = CheckError (snd dec) (snd c1)
               in (fst dec, snd c2))
         else ([], snd c1))"

text \<open>
  Calling a compiled check: the closure applied to the text and the file. The result is
  the alerts, the file afterwards, what has been reported and the number of external
  processes run so far: a script check runs one, the other six kinds run none.
\<close>

definition keep_reported ::
  "string list \<Rightarrow> nat \<Rightarrow> panic + alert list \<times> doc_file
     \<Rightarrow> panic + alert list \<times> doc_file \<times> string list \<times> nat" where
  "keep_reported rep k res =
     (case res of Inl p \<Rightarrow> Inl p | Inr af \<Rightarrow> Inr (fst af, snd af, rep, k))"

fun call_rule ::
  "'re env \<Rightarrow> 're ruleFn \<Rightarrow> string \<Rightarrow> doc_file \<Rightarrow> string list \<Rightarrow> nat
     \<Rightarrow> panic + alert list \<times> doc_file \<times> string list \<times> nat" where
  "call_rule env (RConditional chkDef expression) text f rep k =
     keep_reported rep k (conditional env text chkDef f expression)"
| "call_rule env (RConsistency chkDef re subs) text f rep k =
     keep_reported rep k (consistency env text chkDef f re subs)"
| "call_rule env (RExistence chkDef re) text f rep k =
     keep_reported rep k (existence env text chkDef f re)"
| "call_rule env (ROccurrence chkDef re lim) text f rep k =
     keep_reported rep k (occurrence env text chkDef f re lim)"
| "call_rule env (RRepetition chkDef re) text f rep k =
     keep_reported rep k (repetition env text chkDef f re)"
| "call_rule env (RScript chkDef exe) text f rep k =
     (let r = script env text chkDef exe f rep k in Inr (fst r, f, snd r, Suc k))"
| "call_rule env (RSubstitution chkDef re replacements) text f rep k =
     keep_reported rep k (substitution env text chkDef f re replacements)"

subsection \<open>The compiler\<close>

definition updateAllChecks ::
  "'re env \<Rightarrow> rule_definition \<Rightarrow> 're ruleFn \<Rightarrow> 're loader \<Rightarrow> 're loader" where
  "updateAllChecks env chkDef fn st =
     st\<lparr>AllChecks := (AllChecks st)(Name chkDef \<mapsto>
          \<lparr>extends = Type chkDef,
           level = (case LevelToInt env (Level chkDef) of Some n \<Rightarrow> n | None \<Rightarrow> 0),
           rule = fn,
           scope = Scope chkDef\<rparr>)\<rparr>"

text \<open>\<open>util.CheckError(err, ...)\<close> on the state of loading.\<close>

definition report :: "string option \<Rightarrow> 're loader \<Rightarrow> bool \<times> 're loader" where
  "report err st =
     (let c = CheckError err (reported st) in (fst c, st\<lparr>reported := snd c\<rparr>))"

definition compile_err :: "string + 're \<Rightarrow> string option" where
  "compile_err res = (case res of Inl e \<Rightarrow> Some e | Inr _ \<Rightarrow> None)"

definition addScriptCheck ::
  "'re env \<Rightarrow> string \<Rightarrow> rule_definition \<Rightarrow> 're loader \<Rightarrow> panic + 're loader" where
  "addScriptCheck env chkName chkDef st =
     (case Split_dot chkName of
        [] \<Rightarrow> Inl IndexOutOfRange
      | style # _ \<Rightarrow>
          (let exe = filepath_Join env [StylesPath env, style, ''scripts'', Exe chkDef]
           in if FileExists env exe
              then Inr (updateAllChecks env chkDef (RScript chkDef exe) st)
              else Inr st))"

text \<open>
  The pattern prefix and template that \<open>addConsistencyCheck\<close> and \<open>addSubstitutionCheck\<close>
  assemble in \<open>regex\<close>, applied to the text that replaces \<open>%s\<close>.
\<close>

definition template :: "rule_definition \<Rightarrow> string \<Rightarrow> string" where
  "template chkDef s =
     (if Ignorecase chkDef then ignoreCase else []) @
     (if \<not> Nonword chkDef then wordTemplate s else nonwordTemplate s)"

definition consistency_subs :: "string \<Rightarrow> int \<Rightarrow> string list" where
  "consistency_subs chkKey count = [chkKey @ itoa count, chkKey @ itoa (count + 1)]"

definition consistency_chkRE :: "string list \<Rightarrow> string \<Rightarrow> string \<Rightarrow> string" where
  "consistency_chkRE subs v1 v2 =
     ''(?P<'' @ subs ! 0 @ ''>'' @ v1 @ '')|(?P<'' @ subs ! 1 @ ''>'' @ v2 @ '')''"

text \<open>
  The loop of \<open>addConsistencyCheck\<close> over the entries of \<open>chkDef.Map\<close> that are left;
  \<open>count\<close> and \<open>chkDef\<close> are the variables of the source (\<open>chkDef.Type\<close> is assigned in
  the loop).
\<close>

fun consistency_pairs ::
  "'re env \<Rightarrow> string \<Rightarrow> string \<Rightarrow> (string \<times> string) list \<Rightarrow> int \<Rightarrow> rule_definition
     \<Rightarrow> 're loader \<Rightarrow> 're loader" where
  "consistency_pairs env chkName chkKey [] count chkDef st = st"
| "consistency_pairs env chkName chkKey (v # vs) count chkDef st =
     (let count' = count + 2;
          subs = consistency_subs chkKey count';
          chkRE = template chkDef (consistency_chkRE subs (fst v) (snd v));
          res = Compile env chkRE;
          c = report (compile_err res) st
      in case res of
           Inr re \<Rightarrow>
             (let chkDef' = chkDef\<lparr>Type := chkName\<rparr>
              in consistency_pairs env chkName chkKey vs count' chkDef'
                   (updateAllChecks env chkDef' (RConsistency chkDef' re subs) (snd c)))
         | Inl e \<Rightarrow> consistency_pairs env chkName chkKey vs count' chkDef (snd c))"

definition addConsistencyCheck ::
  "'re env \<Rightarrow> string \<Rightarrow> rule_definition \<Rightarrow> 're loader \<Rightarrow> panic + 're loader" where
  "addConsistencyCheck env chkName chkDef st =
     (case Split_dot chkName of
        _ # chkKey # _ \<Rightarrow> Inr (consistency_pairs env chkName chkKey (Map chkDef) 0 chkDef st)
      | _ \<Rightarrow> Inl IndexOutOfRange)"

definition addExistenceCheck ::
  "'re env \<Rightarrow> string \<Rightarrow> rule_definition \<Rightarrow> 're loader \<Rightarrow> panic + 're loader" where
  "addExistenceCheck env chkName chkDef st =
     (let regex = (if Ignorecase chkDef then ignoreCase else []) @ Join (Raw chkDef) [] @
                  (if \<not> Nonword chkDef \<and> length (Tokens chkDef) > 0
                   then wordTemplate ''%s'' else nonwordTemplate ''%s'');
          res = Compile env (Sprintf1 env regex (Join (Tokens chkDef) ''|''));
          c = report (compile_err res) st
      in case res of
           Inr re \<Rightarrow> Inr (updateAllChecks env chkDef (RExistence chkDef re) (snd c))
         | Inl e \<Rightarrow> Inr (snd c))"

definition addRepetitionCheck ::
  "'re env \<Rightarrow> string \<Rightarrow> rule_definition \<Rightarrow> 're loader \<Rightarrow> panic + 're loader" where
  "addRepetitionCheck env chkName chkDef st =
     (let regex = (if Ignorecase chkDef then ignoreCase else []) @
                  ''('' @ Join (Tokens chkDef) ''|'' @ '')'';
          res = Compile env regex;
          c = report (compile_err res) st
      in case res of
           Inr re \<Rightarrow> Inr (updateAllChecks env chkDef (RRepetition chkDef re) (snd c))
         | Inl e \<Rightarrow> Inr (snd c))"

definition addOccurrenceCheck ::
  "'re env \<Rightarrow> string \<Rightarrow> rule_definition \<Rightarrow> 're loader \<Rightarrow> panic + 're loader" where
  "addOccurrenceCheck env chkName chkDef st =
     (case Tokens chkDef of
        [] \<Rightarrow> Inl IndexOutOfRange
      | t0 # _ \<Rightarrow>
          (let res = Compile env t0;
               c = report (compile_err res) st
           in case res of
                Inr re \<Rightarrow>
                  if Max_d chkDef \<ge> 1
                  then Inr (updateAllChecks env chkDef
                              (ROccurrence chkDef re (Max_d chkDef)) (snd c))
                  else Inr (snd c)
              | Inl e \<Rightarrow> Inr (snd c)))"

definition addConditionalCheck ::
  "'re env \<Rightarrow> string \<Rightarrow> rule_definition \<Rightarrow> 're loader \<Rightarrow> panic + 're loader" where
  "addConditionalCheck env chkName chkDef st =
     (let res1 = Compile env (Then chkDef);
          c1 = report (compile_err res1) st
      in case res1 of
           Inl e \<Rightarrow> Inr (snd c1)
         | Inr re1 \<Rightarrow>
             (let res2 = Compile env (If_d chkDef);
                  c2 = report (compile_err res2) (snd c1)
              in case res2 of
                   Inl e \<Rightarrow> Inr (snd c2)
                 | Inr re2 \<Rightarrow>
                     Inr (updateAllChecks env chkDef
                            (RConditional chkDef [re1, re2]) (snd c2))))"

text \<open>
  The loop of \<open>addSubstitutionCheck\<close> over the entries of \<open>chkDef.Map\<close> that are left; the
  state is \<open>tokens\<close> and \<open>replacements\<close>.
\<close>

fun substitution_pairs ::
  "(string \<times> string) list \<Rightarrow> string \<times> string list \<Rightarrow> string \<times> string list" where
  "substitution_pairs [] acc = acc"
| "substitution_pairs (kv # kvs) acc =
     (if Count (fst kv) ''('' \<noteq> Count (fst kv) ''?:''
      then substitution_pairs kvs acc
      else substitution_pairs kvs (fst acc @ ''('' @ fst kv @ '')|'', snd acc @ [snd kv]))"

definition addSubstitutionCheck ::
  "'re env \<Rightarrow> string \<Rightarrow> rule_definition \<Rightarrow> 're loader \<Rightarrow> panic + 're loader" where
  "addSubstitutionCheck env chkName chkDef st =
     (let acc = substitution_pairs (Map chkDef) ([], []);
          regex = template chkDef (TrimRight_bar (fst acc));
          res = Compile env regex;
          c = report (compile_err res) st
      in case res of
           Inr re \<Rightarrow> Inr (updateAllChecks env chkDef (RSubstitution chkDef re (snd acc)) (snd c))
         | Inl e \<Rightarrow> Inr (snd c))"

text \<open>\<open>definition{Name: chkName}\<close>: every other field has its zero value.\<close>

definition new_definition :: "string \<Rightarrow> rule_definition" where
  "new_definition chkName =
     \<lparr>Description = [], Exceptions = [], Exe = [], If_d = [], Ignorecase = False, Level = [],
      Link = [], Map = [], Max_d = 0, Message = [], Name = chkName, Negate = False,
      Nonword = False, Raw = [], Runtime = [], Scope = [], Then = [], Tokens = [], Type = []\<rparr>"

text \<open>The table \<open>typeToFunc\<close>.\<close>

definition typeToFunc ::
  "string \<Rightarrow> ('re env \<Rightarrow> string \<Rightarrow> rule_definition \<Rightarrow> 're loader \<Rightarrow> panic + 're loader) option" where
  "typeToFunc t =
     (if t = ''conditional'' then Some addConditionalCheck
      else if t = ''consistency'' then Some addConsistencyCheck
      else if t = ''existence'' then Some addExistenceCheck
      else if t = ''occurrence'' then Some addOccurrenceCheck
      else if t = ''repetition'' then Some addRepetitionCheck
      else if t = ''script'' then Some addScriptCheck
      else if t = ''substitution'' then Some addSubstitutionCheck
      else None)"

definition addCheck :: "'re env \<Rightarrow> string \<Rightarrow> string \<Rightarrow> 're loader \<Rightarrow> panic + 're loader" where
  "addCheck env file chkName st =
     (case yaml_Unmarshal env file (new_definition chkName) of
        Inl e \<Rightarrow> Inr (snd (report (Some e) st))
      | Inr chkDef0 \<Rightarrow>
          (let chkDef1 = (if \<not> StringInSlice (Level chkDef0) AlertLevels
                          then chkDef0\<lparr>Level := ''suggestion''\<rparr> else chkDef0);
               chkDef = (if Scope chkDef1 = [] then chkDef1\<lparr>Scope := ''text''\<rparr> else chkDef1)
           in case typeToFunc (Type chkDef) of
                Some addCheckFunc \<Rightarrow> addCheckFunc env chkName chkDef st
              | None \<Rightarrow> Inr st))"

text \<open>
  Loading a sequence of rule files, each with its qualified name, as \<open>loadDefaultChecks\<close>
  and the walk of \<open>loadExternalStyle\<close> do: a panic of one \<open>addCheck\<close> ends the load.
\<close>

fun addChecks :: "'re env \<Rightarrow> (string \<times> string) list \<Rightarrow> 're loader \<Rightarrow> panic + 're loader" where
  "addChecks env [] st = Inr st"
| "addChecks env (fc # fcs) st =
     (case addCheck env (fst fc) (snd fc) st of
        Inl p \<Rightarrow> Inl p
      | Inr st' \<Rightarrow> addChecks env fcs st')"

subsection \<open>A concrete library for the examples\<close>

text \<open>
  The examples below run the code on concrete rules and texts. They need a regular
  expression engine: \<open>rx\<close> is the fragment of the pattern syntax that the examples use
  (literals, character classes, \<open>.\<close>, a greedy star of a negated class, capture groups,
  sequence and alternation), matched leftmost-first as \<open>regexp\<close> does, on ASCII text.
\<close>

datatype rx =
    Lit string
  | OneOf string
  | NotIn string
  | Dot
  | StarNotIn string
  | Grp string rx
  | Cat rx rx
  | Alt rx rx

fun ngroups :: "rx \<Rightarrow> nat" where
  "ngroups (Grp n r) = Suc (ngroups r)"
| "ngroups (Cat a b) = ngroups a + ngroups b"
| "ngroups (Alt a b) = ngroups a + ngroups b"
| "ngroups r = 0"

fun group_names :: "rx \<Rightarrow> string list" where
  "group_names (Grp n r) = n # group_names r"
| "group_names (Cat a b) = group_names a @ group_names b"
| "group_names (Alt a b) = group_names a @ group_names b"
| "group_names r = []"

text \<open>
  Every way in which \<open>r\<close> matches a prefix of \<open>s\<close>, the preferred one first: the number of
  bytes matched and the spans of the groups that took part. \<open>pos\<close> is the offset of \<open>s\<close> in
  the text, \<open>g\<close> the number of the first group of \<open>r\<close>.
\<close>

fun rx_all :: "rx \<Rightarrow> string \<Rightarrow> nat \<Rightarrow> nat \<Rightarrow> (nat \<times> (nat \<times> int \<times> int) list) list" where
  "rx_all (Lit l) s pos g = (if take (length l) s = l then [(length l, [])] else [])"
| "rx_all (OneOf cs) s pos g =
     (case s of [] \<Rightarrow> [] | c # _ \<Rightarrow> if List.member cs c then [(1, [])] else [])"
| "rx_all (NotIn cs) s pos g =
     (case s of [] \<Rightarrow> [] | c # _ \<Rightarrow> if List.member cs c then [] else [(1, [])])"
| "rx_all Dot s pos g =
     (case s of [] \<Rightarrow> [] | c # _ \<Rightarrow> if c = CHR 0x0A then [] else [(1, [])])"
| "rx_all (StarNotIn cs) s pos g =
     map (\<lambda>n. (n, [])) (rev [0..<Suc (length (takeWhile (\<lambda>c. \<not> List.member cs c) s))])"
| "rx_all (Grp n r) s pos g =
     map (\<lambda>kc. (fst kc, (g, int pos, int (pos + fst kc)) # snd kc)) (rx_all r s pos (Suc g))"
| "rx_all (Cat a b) s pos g =
     concat (map (\<lambda>kc. map (\<lambda>kc'. (fst kc + fst kc', snd kc @ snd kc'))
                           (rx_all b (drop (fst kc) s) (pos + fst kc) (g + ngroups a)))
                 (rx_all a s pos g))"
| "rx_all (Alt a b) s pos g = rx_all a s pos g @ rx_all b s pos (g + ngroups a)"

definition rx_match ::
  "rx \<Rightarrow> nat \<Rightarrow> nat \<times> (nat \<times> int \<times> int) list \<Rightarrow> (int \<times> int) \<times> (int \<times> int) list" where
  "rx_match r pos kc =
     ((int pos, int (pos + fst kc)),
      map (\<lambda>i. case map_of (snd kc) i of Some sp \<Rightarrow> sp | None \<Rightarrow> (-1, -1)) [0..<ngroups r])"

text \<open>
  All matches from offset \<open>pos\<close> on, as \<open>FindAll\<close> collects them: after a match the search
  goes on at its end; an empty match next to the match before it is dropped.
\<close>

fun rx_find :: "rx \<Rightarrow> string \<Rightarrow> nat \<Rightarrow> int \<Rightarrow> ((int \<times> int) \<times> (int \<times> int) list) list" where
  "rx_find r [] pos prev =
     (case rx_all r [] pos 0 of
        [] \<Rightarrow> []
      | kc # _ \<Rightarrow> if int pos = prev then [] else [rx_match r pos kc])"
| "rx_find r (c # s) pos prev =
     (case rx_all r (c # s) pos 0 of
        [] \<Rightarrow> rx_find r s (Suc pos) prev
      | kc # _ \<Rightarrow>
          if fst kc = 0
          then (if int pos = prev then rx_find r s (Suc pos) prev
                else rx_match r pos kc # rx_find r s (Suc pos) (int pos))
          else rx_match r pos kc #
               rx_find r (drop (fst kc - 1) s) (pos + fst kc) (int (pos + fst kc)))"

text \<open>White space of \<open>\s\<close> and the class of the URL pattern.\<close>

definition rx_space :: string where
  "rx_space = [CHR 0x09, CHR 0x0A, CHR 0x0C, CHR 0x0D, CHR '' '']"

definition rx_url :: rx where
  "rx_url =
     Grp [] (Cat (Alt (Cat (Lit ''http'') (Alt (Lit ''s'') (Lit []))) (Lit ''ftp''))
            (Cat (Lit ''://'')
            (Cat (NotIn (rx_space @ ''/$.?#''))
            (Cat Dot (StarNotIn rx_space)))))"

text \<open>
  The patterns that the examples compile, each with its reading as an \<open>rx\<close>. The
  examples compile nothing else; any other pattern is answered with an error.
\<close>

definition demo_patterns :: "(string \<times> rx) list" where
  "demo_patterns =
     [(url_regex, rx_url),
      (''foo'', Lit ''foo''),
      (''(x)'', Grp [] (Lit ''x'')),
      (''(?:x)'', Lit ''x''),
      (''(?:[^ ]+)'', Cat (NotIn '' '') (StarNotIn '' '')),
      (''(CSS)'', Grp [] (Lit ''CSS'')),
      (''(HTML)'', Grp [] (Lit ''HTML'')),
      (''(?:(b)|(c))'', Alt (Grp [] (Lit ''b'')) (Grp [] (Lit ''c''))),
      (''(?:((a)[?:])|(b)|(c))'',
         Alt (Grp [] (Cat (Grp [] (Lit ''a'')) (OneOf ''?:'')))
             (Alt (Grp [] (Lit ''b'')) (Grp [] (Lit ''c'')))),
      (''(?:(?P<Spelling2>color)|(?P<Spelling3>colour))'',
         Alt (Grp ''Spelling2'' (Lit ''color'')) (Grp ''Spelling3'' (Lit ''colour''))),
      (''(?:(?P<Spelling4>center)|(?P<Spelling5>centre))'',
         Alt (Grp ''Spelling4'' (Lit ''center'')) (Grp ''Spelling5'' (Lit ''centre'')))]"

definition demo_Compile :: "string \<Rightarrow> string + rx" where
  "demo_Compile p =
     (case map_of demo_patterns p of
        Some r \<Rightarrow> Inr r
      | None \<Rightarrow> Inl (''error parsing regexp: '' @ p))"

definition demo_TrimSpace :: "string \<Rightarrow> string" where
  "demo_TrimSpace s =
     rev (dropWhile (\<lambda>c. List.member (CHR 0x0B # rx_space) c)
            (rev (dropWhile (\<lambda>c. List.member (CHR 0x0B # rx_space) c) s)))"

text \<open>
  \<open>%s\<close> filled in from the left, for a format with no other verb and at most as many
  \<open>%s\<close> as arguments.
\<close>

fun fill :: "string \<Rightarrow> string list \<Rightarrow> string" where
  "fill [] subs = []"
| "fill (c # cs) subs =
     (if c = CHR ''%'' \<and> take 1 cs = ''s'' \<and> subs \<noteq> []
      then hd subs @ fill (drop 1 cs) (tl subs)
      else c # fill cs subs)"

definition zero_alert :: alert where
  "zero_alert = \<lparr>Check = [], Severity = [], Span = [], Link_a = [], Message_a = [],
                  Description_a = []\<rparr>"

text \<open>
  Runs of an external script: one that exits with status 1, one that prints text that
  is not JSON, one that prints an array whose record has a number where \<open>Alert\<close> has a
  string, and one whose answer depends on the moment of the run: on the text \<open>flaky\<close>
  it prints an empty array the first time and an array of one alert afterwards, as a
  script does that keeps a cache or reads the clock. On the text \<open>ftp://xx\<close> the script
  prints one alert, on every other text an empty array. For the record with the number,
  \<open>json.Unmarshal\<close> skips the field, completes the array with the record and returns
  an \<open>UnmarshalTypeError\<close>.
\<close>

definition demo_Output :: "nat \<Rightarrow> string \<Rightarrow> string \<Rightarrow> string \<Rightarrow> string \<times> string option" where
  \<open>demo_Output k runtime exe txt =
     (if txt = ''exit'' then ([], Some ''exit status 1'')
      else if txt = ''garbage'' then (''oops'', None)
      else if txt = ''number'' then (''[{"Check": 1}]'', None)
      else if txt = ''flaky'' \<and> 0 < k then (''[{"Check": "demo.Lint"}]'', None)
      else if txt = ''ftp://xx'' then (''[{"Check": "demo.Lint"}]'', None)
      else (''[]'', None))\<close>

definition demo_json_Unmarshal :: "string \<Rightarrow> alert list \<Rightarrow> alert list \<times> string option" where
  \<open>demo_json_Unmarshal out as =
     (if out = ''[]'' then ([], None)
      else if out = ''[{"Check": "demo.Lint"}]''
      then ([zero_alert\<lparr>Check := ''demo.Lint''\<rparr>], None)
      else if out = ''[{"Check": 1}]''
      then ([zero_alert],
            Some ''json: cannot unmarshal number into Go struct field Alert.Check of type string'')
      else (as, Some ''invalid character looking for beginning of value''))\<close>

text \<open>Four rule files.\<close>

definition demo_yaml_Unmarshal :: "string \<Rightarrow> rule_definition \<Rightarrow> string + rule_definition" where
  "demo_yaml_Unmarshal file d =
     (if file = ''{type: occurrence, max: 2}''
      then Inr (d\<lparr>Type := ''occurrence'', Max_d := 2\<rparr>)
      else if file = ''{type: occurrence, max: 2, tokens: [foo]}''
      then Inr (d\<lparr>Type := ''occurrence'', Max_d := 2, Tokens := [''foo'']\<rparr>)
      else if file = ''{type: existence, nonword: true, tokens: [x]}''
      then Inr (d\<lparr>Type := ''existence'', Nonword := True, Tokens := [''x'']\<rparr>)
      else if file = ''{type: sparkle}''
      then Inr (d\<lparr>Type := ''sparkle''\<rparr>)
      else Inl ''yaml: did not find expected node content'')"

definition demo_env :: "rx env" where
  "demo_env =
     \<lparr>Compile = demo_Compile,
      FindAllStringSubmatchIndex = (\<lambda>r s. rx_find r s 0 (-1)),
      SubexpNames = (\<lambda>r. [] # group_names r),
      TrimSpace = demo_TrimSpace,
      Sprintf1 = (\<lambda>fmt a. fill fmt [a]),
      FormatMessage = fill,
      MatchIgnoreByByExtension = Map.empty,
      LevelToInt = map_of [(''suggestion'', 0), (''warning'', 1), (''error'', 2)],
      StylesPath = ''styles'',
      filepath_Join = (\<lambda>ps. Join ps ''/''),
      FileExists = (\<lambda>p. p = ''styles/demo/scripts/lint.py''),
      Output = demo_Output,
      json_Unmarshal = demo_json_Unmarshal,
      yaml_Unmarshal = demo_yaml_Unmarshal\<rparr>"

definition demo_file :: doc_file where
  "demo_file = \<lparr>NormedExt = ''.md'', Sequences = []\<rparr>"

definition demo_loader :: "rx loader" where
  "demo_loader = \<lparr>AllChecks = Map.empty, reported = []\<rparr>"

text \<open>The rules of the examples.\<close>

definition demo_rule :: "string \<Rightarrow> rule_definition" where
  "demo_rule n = (new_definition n)\<lparr>Level := ''warning'', Scope := ''text'', Nonword := True\<rparr>"

definition demo_occurrence :: rule_definition where
  "demo_occurrence =
     (demo_rule ''demo.Foo'')\<lparr>Tokens := [''foo''], Max_d := 2, Message := ''too many foo''\<rparr>"

definition demo_repetition :: rule_definition where
  "demo_repetition =
     (demo_rule ''demo.Rep'')\<lparr>Tokens := [''x''], Max_d := 1, Message := ''%s is repeated''\<rparr>"

definition demo_existence :: rule_definition where
  "demo_existence = (demo_rule ''demo.Ban'')\<lparr>Tokens := [''x''], Message := ''avoid %s''\<rparr>"


definition demo_conditional :: rule_definition where
  "demo_conditional =
     (demo_rule ''demo.Cond'')\<lparr>If_d := ''(CSS)'', Then := ''(HTML)'', Message := ''%s is new''\<rparr>"

definition demo_substitution :: rule_definition where
  "demo_substitution =
     (demo_rule ''demo.Sub'')\<lparr>Map := [(''b'', ''Y''), (''c'', ''Z'')],
                               Message := ''use %s, not %s''\<rparr>"

definition demo_substitution3 :: rule_definition where
  "demo_substitution3 =
     (demo_rule ''demo.Sub'')\<lparr>Map := [(''(a)[?:]'', ''X''), (''b'', ''Y''), (''c'', ''Z'')],
                               Message := ''use %s, not %s''\<rparr>"

definition demo_consistency :: rule_definition where
  "demo_consistency =
     (demo_rule ''demo.Spelling'')\<lparr>Map := [(''color'', ''colour''), (''center'', ''centre'')],
                                    Message := ''inconsistent spelling of %s''\<rparr>"

definition demo_spelling :: rule_definition where
  "demo_spelling =
     (demo_rule ''demo.Spelling'')\<lparr>Map := [(''color'', ''colour'')],
                                    Message := ''inconsistent spelling of %s''\<rparr>"

definition demo_script :: rule_definition where
  "demo_script = (demo_rule ''demo.Lint'')\<lparr>Exe := ''lint.py'', Runtime := ''python''\<rparr>"

subsection \<open>Notions used in the statements\<close>

text \<open>A span that lies inside the text, as every span that \<open>regexp\<close> returns does.\<close>

definition valid_span :: "string \<Rightarrow> int \<times> int \<Rightarrow> bool" where
  "valid_span txt loc = (0 \<le> fst loc \<and> fst loc \<le> snd loc \<and> snd loc \<le> int (length txt))"

text \<open>The alert of a check at a span, its message formatted with the given texts.\<close>

definition alert_at :: "'re env \<Rightarrow> rule_definition \<Rightarrow> int list \<Rightarrow> string list \<Rightarrow> alert" where
  "alert_at env chk loc subs =
     \<lparr>Check = Name chk, Severity = Level chk, Span = loc, Link_a = Link chk,
      Message_a = FormatMessage env (Message chk) subs,
      Description_a = FormatMessage env (Description chk) subs\<rparr>"

text \<open>
  Repetition. \<open>trimmed\<close> is the trimmed text of every match. Match \<open>i\<close> is a hit when its
  trimmed text is not empty and equals that of match \<open>i - 1\<close>. It fires when it is a hit
  and the number of hits up to it is a multiple of \<open>m + 1\<close>: the counter, which starts at
  zero and returns to zero when the check fires, has then passed \<open>m\<close>.
\<close>

definition trimmed :: "'re env \<Rightarrow> string \<Rightarrow> (int \<times> int) list \<Rightarrow> string list" where
  "trimmed env txt locs = map (\<lambda>loc. TrimSpace env (substr txt loc)) locs"

definition is_hit :: "string list \<Rightarrow> nat \<Rightarrow> bool" where
  "is_hit ts i = (0 < i \<and> ts ! i = ts ! (i - 1) \<and> ts ! i \<noteq> [])"

definition hits_before :: "string list \<Rightarrow> nat \<Rightarrow> nat" where
  "hits_before ts i = length (filter (is_hit ts) [0..<i])"

definition fires :: "nat \<Rightarrow> string list \<Rightarrow> nat \<Rightarrow> bool" where
  "fires m ts i = (is_hit ts i \<and> hits_before ts (Suc i) mod Suc m = 0)"

definition repetition_alert ::
  "'re env \<Rightarrow> rule_definition \<Rightarrow> (int \<times> int) list \<Rightarrow> string list \<Rightarrow> nat \<Rightarrow> alert" where
  "repetition_alert env chk locs ts i =
     alert_at env chk [fst (locs ! (i - 1)), snd (locs ! i)] [ts ! i]"

text \<open>
  Conditional. The text of the first capture group of every match of a pattern that has
  a group, and the test that a match is neither in the sequence nor an exception.
\<close>

definition first_groups :: "'re env \<Rightarrow> 're \<Rightarrow> string \<Rightarrow> string list" where
  "first_groups env r txt =
     map (\<lambda>m. group_text txt (hd (snd m)))
       (filter (\<lambda>m. snd m \<noteq> []) (FindAllStringSubmatchIndex env r txt))"

definition unknown_text :: "string list \<Rightarrow> rule_definition \<Rightarrow> string \<Rightarrow> int \<times> int \<Rightarrow> bool" where
  "unknown_text seqs chk txt loc =
     (\<not> List.member seqs (substr txt loc) \<and> \<not> List.member (Exceptions chk) (substr txt loc))"

text \<open>
  Substitution and consistency. \<open>participating\<close> lists the capture groups of a match
  that took part (counting from 0), \<open>group_hits\<close> lists them for all matches in document
  order, each with its span. \<open>kept_pairs\<close> is the entries of the map that
  \<open>addSubstitutionCheck\<close> keeps, in the order of its loop.
\<close>

definition participating :: "(int \<times> int) list \<Rightarrow> nat list" where
  "participating gs = filter (\<lambda>j. fst (gs ! j) \<noteq> -1) [0..<length gs]"

definition group_hits ::
  "((int \<times> int) \<times> (int \<times> int) list) list \<Rightarrow> (nat \<times> int \<times> int) list" where
  "group_hits ms = concat (map (\<lambda>m. map (\<lambda>j. (j, snd m ! j)) (participating (snd m))) ms)"

definition kept_pairs :: "rule_definition \<Rightarrow> (string \<times> string) list" where
  "kept_pairs chkDef = filter (\<lambda>kv. Count (fst kv) ''('' = Count (fst kv) ''?:'') (Map chkDef)"

definition group_pairs :: "nat \<Rightarrow> nat list" where
  "group_pairs n = concat (map (\<lambda>j. [2 * j + 2, 2 * j + 3]) [0..<n])"

text \<open>What one participating group does to the state of the loop of \<open>consistency\<close>.\<close>

definition consistency_step ::
  "string list \<Rightarrow> int list \<times> string list \<Rightarrow> nat \<times> int \<times> int \<Rightarrow> int list \<times> string list" where
  "consistency_step names st h = (loc_of (snd h), snd st @ [names ! Suc (fst h)])"

definition hit_names :: "'re env \<Rightarrow> 're \<Rightarrow> (nat \<times> int \<times> int) list \<Rightarrow> string list" where
  "hit_names env r hs = map (\<lambda>h. SubexpNames env r ! Suc (fst h)) hs"

text \<open>
  In a match exactly one capture group took part, and it spans the whole match.
\<close>

definition whole_match :: "(int \<times> int) \<times> (int \<times> int) list \<Rightarrow> bool" where
  "whole_match m = (map ((!) (snd m)) (participating (snd m)) = [fst m])"

text \<open>The alert of \<open>substitution\<close> for one participating group.\<close>

definition substitution_alert ::
  "'re env \<Rightarrow> rule_definition \<Rightarrow> string list \<Rightarrow> string \<Rightarrow> nat \<times> int \<times> int \<Rightarrow> alert" where
  "substitution_alert env chk repl txt h =
     alert_at env chk (loc_of (snd h)) [repl ! fst h, substr txt (snd h)]"

text \<open>The registry entry that \<open>updateAllChecks\<close> stores for a consistency pair.\<close>

definition consistency_entry ::
  "'re env \<Rightarrow> string \<Rightarrow> rule_definition \<Rightarrow> 're \<Rightarrow> string list \<Rightarrow> 're check" where
  "consistency_entry env chkName chkDef re subs =
     \<lparr>extends = chkName,
      level = (case LevelToInt env (Level chkDef) of Some n \<Rightarrow> n | None \<Rightarrow> 0),
      rule = RConsistency (chkDef\<lparr>Type := chkName\<rparr>) re subs,
      scope = Scope chkDef\<rparr>"


definition same_or_filler :: "char \<Rightarrow> char \<Rightarrow> bool" where
  "same_or_filler a b = (b = a \<or> b = CHR ''*'')"


text \<open>
  The copy that the specification describes: the text with every byte inside one of
  the spans overwritten with the filler character, and every other byte kept.
\<close>

definition covered :: "(int \<times> int) list \<Rightarrow> nat \<Rightarrow> bool" where
  "covered spans i = list_ex (\<lambda>u. fst u \<le> int i \<and> int i < snd u) spans"

definition overwrite :: "string \<Rightarrow> (int \<times> int) list \<Rightarrow> string" where
  "overwrite txt spans =
     map (\<lambda>i. if covered spans i then CHR ''*'' else txt ! i) [0..<length txt]"


text \<open>
  When does replacing by value overwrite exactly the matches? \<open>occurrences t s\<close> lists
  the offsets at which the string \<open>s\<close> occurs in \<open>t\<close>. \<open>matches_apart\<close> is what the
  regexp library guarantees for the matches it returns: they lie inside the text and
  no two of them overlap. \<open>only_at_matches\<close> is a condition on the text: the string of
  a match contains no filler character, and wherever it occurs in the text the pattern
  has matched just that string.
\<close>

definition occurrences :: "string \<Rightarrow> string \<Rightarrow> nat list" where
  "occurrences t s =
     (if s = [] then [] else filter (\<lambda>p. take (length s) (drop p t) = s) [0..<length t])"


definition only_at_matches :: "string \<Rightarrow> (int \<times> int) list \<Rightarrow> bool" where
  "only_at_matches txt us =
     list_all (\<lambda>u. \<not> List.member (substr txt u) CHR ''*''
                  \<and> list_all (\<lambda>p. List.member us (int p, int p + int (length (substr txt u))))
                      (occurrences txt (substr txt u))) us"








text \<open>
  The external process of a script check gives, at run \<open>k'\<close>, the output and the exit
  status that it gave at run \<open>k\<close>. The other kinds run no process.
\<close>

fun same_output :: "'re env \<Rightarrow> 're ruleFn \<Rightarrow> string \<Rightarrow> nat \<Rightarrow> nat \<Rightarrow> bool" where
  "same_output env (RScript chkDef exe) text k k' =
     (Output env k' (Runtime chkDef) exe text = Output env k (Runtime chkDef) exe text)"
| "same_output env (RConditional chkDef expression) text k k' = True"
| "same_output env (RConsistency chkDef re subs) text k k' = True"
| "same_output env (RExistence chkDef re) text k k' = True"
| "same_output env (ROccurrence chkDef re lim) text k k' = True"
| "same_output env (RRepetition chkDef re) text k k' = True"
| "same_output env (RSubstitution chkDef re replacements) text k k' = True"

section \<open>Properties\<close>

subsection \<open>Occurrence\<close>

text \<open>
  C2. When \<open>addOccurrenceCheck\<close> registers a check, the check is the occurrence matcher
  of the definition with its maximum, and the maximum is at least 1. On every text: when
  the pattern has more matches in the masked text than the maximum, the check returns
  exactly one alert, whose span runs from the start of the first match to the end of the
  last match; otherwise (also when there is no match) it returns no alert.
\<close>

theorem occurrence_single_alert:
  assumes "AllChecks st' \<noteq> AllChecks st"
    and "addOccurrenceCheck env chkName chk st = Inr st'"
    and "cleanText env (NormedExt f) txt = Inr masked"
  shows "\<exists>r. rule (the (AllChecks st' (Name chk))) = ROccurrence chk r (Max_d chk)
           \<and> occurrence env txt chk f r (Max_d chk) =
               Inr (if int (length (FindAllStringIndex env r masked)) > Max_d chk
                    then [\<lparr>Check = Name chk, Severity = Level chk,
                           Span = [fst (hd (FindAllStringIndex env r masked)),
                                   snd (last (FindAllStringIndex env r masked))],
                           Link_a = Link chk, Message_a = Message chk,
                           Description_a = Description chk\<rparr>]
                    else [], f)"
proof -
  from assms(1,2) obtain r where
    reg: "rule (the (AllChecks st' (Name chk))) = ROccurrence chk r (Max_d chk)"
    and lim: "1 \<le> Max_d chk"
    by (auto simp: addOccurrenceCheck_def Let_def report_def compile_err_def CheckError_def
                   updateAllChecks_def split: list.splits sum.splits if_splits)
  have "occurrence env txt chk f r (Max_d chk) =
          Inr (if int (length (FindAllStringIndex env r masked)) > Max_d chk
               then [\<lparr>Check = Name chk, Severity = Level chk,
                      Span = [fst (hd (FindAllStringIndex env r masked)),
                              snd (last (FindAllStringIndex env r masked))],
                      Link_a = Link chk, Message_a = Message chk,
                      Description_a = Description chk\<rparr>]
               else [], f)"
  proof (cases "FindAllStringIndex env r masked")
    case Nil
    with lim assms(3) show ?thesis by (simp add: occurrence_def)
  next
    case (Cons l ls)
    with assms(3) show ?thesis by (simp add: occurrence_def Let_def)
  qed
  with reg show ?thesis by blast
qed

theorem occurrence_single_alert_witness:
  "AllChecks (updateAllChecks demo_env demo_occurrence
                (ROccurrence demo_occurrence (Lit ''foo'') 2) demo_loader) \<noteq>
     AllChecks demo_loader
   \<and> addOccurrenceCheck demo_env ''demo.Foo'' demo_occurrence demo_loader =
       Inr (updateAllChecks demo_env demo_occurrence
              (ROccurrence demo_occurrence (Lit ''foo'') 2) demo_loader)
   \<and> cleanText demo_env (NormedExt demo_file) ''foo foo foo'' = Inr ''foo foo foo''
   \<and> cleanText demo_env (NormedExt demo_file) ''foo foo'' = Inr ''foo foo''
   \<and> occurrence demo_env ''foo foo foo'' demo_occurrence demo_file (Lit ''foo'') 2 =
       Inr ([\<lparr>Check = ''demo.Foo'', Severity = ''warning'', Span = [0, 11], Link_a = [],
              Message_a = ''too many foo'', Description_a = []\<rparr>], demo_file)
   \<and> occurrence demo_env ''foo foo'' demo_occurrence demo_file (Lit ''foo'') 2 =
       Inr ([], demo_file)"
proof -
  let ?st = "updateAllChecks demo_env demo_occurrence
               (ROccurrence demo_occurrence (Lit ''foo'') 2) demo_loader"
  have reg: "rule (the (AllChecks ?st (Name demo_occurrence))) =
               ROccurrence demo_occurrence (Lit ''foo'') 2"
    by (simp add: updateAllChecks_def)
  have h1: "AllChecks ?st \<noteq> AllChecks demo_loader"
  proof
    assume "AllChecks ?st = AllChecks demo_loader"
    then have "AllChecks ?st (Name demo_occurrence) = AllChecks demo_loader (Name demo_occurrence)"
      by (rule arg_cong)
    then show False by (simp add: updateAllChecks_def demo_loader_def)
  qed
  have c: "Compile demo_env ''foo'' = Inr (Lit ''foo'')"
    by code_simp
  have h2: "addOccurrenceCheck demo_env ''demo.Foo'' demo_occurrence demo_loader = Inr ?st"
    using c
    by (simp add: addOccurrenceCheck_def Let_def report_def compile_err_def CheckError_def
                  demo_occurrence_def demo_loader_def)
  have h3: "cleanText demo_env (NormedExt demo_file) ''foo foo foo'' = Inr ''foo foo foo''"
    by code_simp
  have h3': "cleanText demo_env (NormedExt demo_file) ''foo foo'' = Inr ''foo foo''"
    by code_simp
  have d: "Name demo_occurrence = ''demo.Foo''" "Level demo_occurrence = ''warning''"
    "Link demo_occurrence = []" "Message demo_occurrence = ''too many foo''"
    "Description demo_occurrence = []" "Max_d demo_occurrence = 2"
    by (simp_all add: demo_occurrence_def demo_rule_def new_definition_def)
  have l3: "FindAllStringIndex demo_env (Lit ''foo'') ''foo foo foo'' = [(0, 3), (4, 7), (8, 11)]"
    by code_simp
  have l2: "FindAllStringIndex demo_env (Lit ''foo'') ''foo foo'' = [(0, 3), (4, 7)]"
    by code_simp
  have e3: "occurrence demo_env ''foo foo foo'' demo_occurrence demo_file (Lit ''foo'') 2 =
       Inr ([\<lparr>Check = ''demo.Foo'', Severity = ''warning'', Span = [0, 11], Link_a = [],
              Message_a = ''too many foo'', Description_a = []\<rparr>], demo_file)"
    using occurrence_single_alert [OF h1 h2 h3] reg
    by (auto simp: d l3)
  have e2: "occurrence demo_env ''foo foo'' demo_occurrence demo_file (Lit ''foo'') 2 =
       Inr ([], demo_file)"
    using occurrence_single_alert [OF h1 h2 h3'] reg
    by (auto simp: d l2)
  show ?thesis using h1 h2 h3 h3' e3 e2 by (intro conjI)
qed

subsection \<open>Repetition\<close>

lemma slice_valid: "valid_span txt loc \<Longrightarrow> slice txt (fst loc) (snd loc) = Inr (substr txt loc)"
  by (simp add: valid_span_def slice_def substr_def)

lemma hits_before_Suc:
  "hits_before ts (Suc k) = hits_before ts k + (if is_hit ts k then 1 else 0)"
  by (simp add: hits_before_def)

lemma repetition_locs_miss:
  assumes "valid_span txt loc" and "cur = TrimSpace env (substr txt loc)"
    and "\<not> (cur = prev \<and> cur \<noteq> [])"
  shows "repetition_locs env chk txt (loc # locs) prev ploc c al =
         repetition_locs env chk txt locs cur (loc_of loc) c al"
  using assms by (auto simp: slice_valid Let_def)

lemma repetition_locs_count:
  assumes "valid_span txt loc" and "cur = TrimSpace env (substr txt loc)"
    and "cur = prev" and "cur \<noteq> []" and "\<not> c + 1 > Max_d chk"
  shows "repetition_locs env chk txt (loc # locs) prev ploc c al =
         repetition_locs env chk txt locs cur (loc_of loc) (c + 1) al"
  using assms by (auto simp: slice_valid Let_def)

lemma repetition_locs_fire:
  assumes "valid_span txt loc" and "cur = TrimSpace env (substr txt loc)"
    and "cur = prev" and "cur \<noteq> []" and "c + 1 > Max_d chk"
  shows "repetition_locs env chk txt (loc # locs) prev (loc_of ploc) c al =
         repetition_locs env chk txt locs cur (loc_of loc) 0
           (al @ [alert_at env chk [fst ploc, snd loc] [cur]])"
  using assms by (auto simp: slice_valid Let_def loc_of_def alert_at_def formatMessages_def)

lemma repetition_locs_from:
  assumes v: "list_all (valid_span txt) locs"
    and ts: "ts = trimmed env txt locs"
  shows "k \<le> length locs \<Longrightarrow>
         repetition_locs env chk txt (drop k locs)
           (if k = 0 then [] else ts ! (k - 1))
           (if k = 0 then [] else loc_of (locs ! (k - 1)))
           (int (hits_before ts k mod Suc (nat (Max_d chk)))) alerts =
         Inr (alerts @ map (repetition_alert env chk locs ts)
                         (filter (fires (nat (Max_d chk)) ts) [k..<length locs]))"
proof (induction "length locs - k" arbitrary: k alerts)
  case 0
  then show ?case by simp
next
  case (Suc d)
  then have k: "k < length locs" by simp
  let ?m = "nat (Max_d chk)"
  let ?c = "hits_before ts k mod Suc ?m"
  let ?prev = "if k = 0 then [] else ts ! (k - 1)"
  let ?ploc = "if k = 0 then [] else loc_of (locs ! (k - 1))"
  let ?rest = "drop (Suc k) locs"
  have dr: "drop k locs = locs ! k # ?rest"
    using k by (simp add: Cons_nth_drop_Suc)
  have vk: "valid_span txt (locs ! k)"
    using v k by (simp add: list_all_length)
  have curr: "ts ! k = TrimSpace env (substr txt (locs ! k))"
    using k by (simp add: ts trimmed_def)
  have up: "[k..<length locs] = k # [Suc k..<length locs]"
    using k by (simp add: upt_conv_Cons)
  have "?c < Suc ?m" by simp
  then have cm: "?c \<le> ?m" by simp
  have ih: "repetition_locs env chk txt ?rest (ts ! k) (loc_of (locs ! k))
                 (int (hits_before ts (Suc k) mod Suc ?m)) al =
               Inr (al @ map (repetition_alert env chk locs ts)
                         (filter (fires ?m ts) [Suc k..<length locs]))" for al
    using Suc.hyps(1) [of "Suc k"] Suc.hyps(2) k by simp
  show ?case
  proof (cases "is_hit ts k")
    case False
    then have nf: "\<not> fires ?m ts k" by (simp add: fires_def)
    have hb: "hits_before ts (Suc k) = hits_before ts k"
      using False by (simp add: hits_before_Suc)
    have nh: "\<not> (ts ! k = ?prev \<and> ts ! k \<noteq> [])"
      using False by (auto simp: is_hit_def)
    have "repetition_locs env chk txt (locs ! k # ?rest) ?prev ?ploc (int ?c) alerts =
          repetition_locs env chk txt ?rest (ts ! k) (loc_of (locs ! k)) (int ?c) alerts"
      by (rule repetition_locs_miss [OF vk curr nh])
    then show ?thesis
      using ih [of alerts] nf by (simp only: dr up hb filter.simps if_False)
  next
    case True
    then have kpos: "0 < k" and same: "ts ! k = ts ! (k - 1)" and ne: "ts ! k \<noteq> []"
      by (auto simp: is_hit_def)
    have prev: "?prev = ts ! (k - 1)" and ploc: "?ploc = loc_of (locs ! (k - 1))"
      using kpos by simp_all
    have hb: "hits_before ts (Suc k) = Suc (hits_before ts k)"
      using True by (simp add: hits_before_Suc)
    show ?thesis
    proof (cases "?c = ?m")
      case c: True
      have z: "hits_before ts (Suc k) mod Suc ?m = 0"
        by (simp add: hb mod_Suc c)
      have f: "fires ?m ts k" using True z by (simp add: fires_def)
      have gt: "int ?c + 1 > Max_d chk" using c by linarith
      have "repetition_locs env chk txt (locs ! k # ?rest) (ts ! (k - 1))
              (loc_of (locs ! (k - 1))) (int ?c) alerts =
            repetition_locs env chk txt ?rest (ts ! k) (loc_of (locs ! k)) 0
              (alerts @ [alert_at env chk [fst (locs ! (k - 1)), snd (locs ! k)] [ts ! k]])"
        by (rule repetition_locs_fire [OF vk curr same ne gt])
      then have "repetition_locs env chk txt (drop k locs) ?prev ?ploc (int ?c) alerts =
            Inr ((alerts @ [repetition_alert env chk locs ts k]) @
                 map (repetition_alert env chk locs ts)
                   (filter (fires ?m ts) [Suc k..<length locs]))"
        using ih [of "alerts @ [repetition_alert env chk locs ts k]"]
        by (simp only: dr prev ploc z repetition_alert_def) simp
      then show ?thesis using f by (simp only: up filter.simps if_True) simp
    next
      case c: False
      have lt: "?c < ?m" using cm c by (rule le_neq_implies_less)
      have z: "hits_before ts (Suc k) mod Suc ?m = Suc ?c"
        by (simp add: hb mod_Suc c)
      have nf: "\<not> fires ?m ts k" using z by (simp add: fires_def)
      have ngt: "\<not> int ?c + 1 > Max_d chk" using lt by linarith
      have "repetition_locs env chk txt (locs ! k # ?rest) (ts ! (k - 1))
              (loc_of (locs ! (k - 1))) (int ?c) alerts =
            repetition_locs env chk txt ?rest (ts ! k) (loc_of (locs ! k)) (int ?c + 1) alerts"
        by (rule repetition_locs_count [OF vk curr same ne ngt])
      moreover have "int ?c + 1 = int (hits_before ts (Suc k) mod Suc ?m)"
        by (simp add: z)
      ultimately show ?thesis
        using ih [of alerts] nf by (simp only: dr up prev ploc filter.simps if_False)
    qed
  qed
qed

text \<open>
  C1, as the code has it. The matches are scanned in document order; every hit
  increments the counter, and when the counter exceeds the maximum \<open>m\<close> exactly one alert
  is emitted and the counter returns to zero, so that the check fires at every
  \<open>(m + 1)\<close>-th hit and at no other match (at every hit when \<open>m\<close> is negative). The span
  of the alert runs from the start of the match immediately before the current one to the
  end of the current match.
\<close>

theorem repetition_reset_on_fire:
  assumes "list_all (valid_span txt) (FindAllStringIndex env r txt)"
  shows "repetition env txt chk f r =
           Inr (map (repetition_alert env chk (FindAllStringIndex env r txt)
                       (trimmed env txt (FindAllStringIndex env r txt)))
                    (filter (fires (nat (Max_d chk))
                               (trimmed env txt (FindAllStringIndex env r txt)))
                       [0..<length (FindAllStringIndex env r txt)]), f)"
  using repetition_locs_from [OF assms refl, where k = 0 and alerts = "[]" and env = env
                               and chk = chk]
  by (simp add: repetition_def hits_before_def)

theorem repetition_reset_on_fire_witness:
  "list_all (valid_span ''x x x x'')
        (FindAllStringIndex demo_env (Grp [] (Lit ''x'')) ''x x x x'')
   \<and> repetition demo_env ''x x x x'' demo_repetition demo_file (Grp [] (Lit ''x'')) =
       Inr ([alert_at demo_env demo_repetition [2, 5] [''x'']], demo_file)"
proof -
  have h2: "list_all (valid_span ''x x x x'')
              (FindAllStringIndex demo_env (Grp [] (Lit ''x'')) ''x x x x'')"
    by code_simp
  have ev: "Inr (map (repetition_alert demo_env demo_repetition
                       (FindAllStringIndex demo_env (Grp [] (Lit ''x'')) ''x x x x'')
                       (trimmed demo_env ''x x x x''
                          (FindAllStringIndex demo_env (Grp [] (Lit ''x'')) ''x x x x'')))
                    (filter (fires (nat (Max_d demo_repetition))
                               (trimmed demo_env ''x x x x''
                                  (FindAllStringIndex demo_env (Grp [] (Lit ''x'')) ''x x x x'')))
                       [0..<length (FindAllStringIndex demo_env (Grp [] (Lit ''x'')) ''x x x x'')]),
                 demo_file) =
            (Inr ([alert_at demo_env demo_repetition [2, 5] [''x'']], demo_file)
               :: panic + alert list \<times> doc_file)"
    by code_simp
  have c: "repetition demo_env ''x x x x'' demo_repetition demo_file (Grp [] (Lit ''x'')) =
             Inr ([alert_at demo_env demo_repetition [2, 5] [''x'']], demo_file)"
    using repetition_reset_on_fire [OF h2, where f = demo_file and chk = demo_repetition] ev
    by (rule trans)
  show ?thesis using h2 c by (intro conjI)
qed

text \<open>
  C1 as stated fails on its own example. Token \<open>x\<close> with maximum 1 on \<open>x x x x\<close>: the
  matches are at 0, 2, 4 and 6, all of one run that starts at offset 0. The one alert has
  the span \<open>[2, 5]\<close>, from the second match to the third, not a span from offset 0.
\<close>

theorem repetition_span_counterexample:
  "(case addRepetitionCheck demo_env ''demo.Rep'' demo_repetition demo_loader of
      Inl p \<Rightarrow> None
    | Inr st \<Rightarrow> map_option rule (AllChecks st ''demo.Rep'')) =
     Some (RRepetition demo_repetition (Grp [] (Lit ''x'')))
   \<and> call_rule demo_env (RRepetition demo_repetition (Grp [] (Lit ''x''))) ''x x x x'' demo_file [] 0 =
       Inr ([\<lparr>Check = ''demo.Rep'', Severity = ''warning'', Span = [2, 5], Link_a = [],
              Message_a = ''x is repeated'', Description_a = []\<rparr>], demo_file, [], 0)"
  by code_simp

subsection \<open>Conditional\<close>

lemma makeAlert_valid:
  "valid_span txt loc \<Longrightarrow>
   makeAlert env chk (loc_of loc) txt = Inr (alert_at env chk (loc_of loc) [substr txt loc])"
  by (simp add: makeAlert_def loc_of_def slice_valid alert_at_def formatMessages_def)

lemma conditional_locs_filter:
  "list_all (valid_span txt) locs \<Longrightarrow>
   conditional_locs env chk txt seqs locs alerts =
     Inr (alerts @ map (\<lambda>loc. alert_at env chk (loc_of loc) [substr txt loc])
                     (filter (unknown_text seqs chk txt) locs))"
proof (induction locs arbitrary: alerts)
  case Nil
  then show ?case by simp
next
  case (Cons loc locs)
  then have v: "valid_span txt loc" and vs: "list_all (valid_span txt) locs" by simp_all
  show ?case
    by (simp add: slice_valid [OF v] makeAlert_valid [OF v] Cons.IH [OF vs]
                  unknown_text_def StringInSlice_def)
qed

lemma conditional_defs_append:
  "conditional_defs seqs ds = seqs @ map (\<lambda>d. d ! 1) (filter (\<lambda>d. length d > 1) ds)"
  unfolding conditional_defs_def
  by (induction ds arbitrary: seqs) simp_all

lemma conditional_defs_first_groups:
  "conditional_defs seqs (FindAllStringSubmatch env r txt) = seqs @ first_groups env r txt"
proof -
  have "map (\<lambda>d. d ! 1) (filter (\<lambda>d. length d > 1)
          (map (\<lambda>m. substr txt (fst m) # map (group_text txt) (snd m)) ms)) =
        map (\<lambda>m. group_text txt (hd (snd m))) (filter (\<lambda>m. snd m \<noteq> []) ms)" for ms
  proof (induction ms)
    case Nil
    show ?case by simp
  next
    case (Cons m ms)
    then show ?case by (cases "snd m") simp_all
  qed
  then show ?thesis
    by (simp add: conditional_defs_append FindAllStringSubmatch_def first_groups_def)
qed

text \<open>
  C4, as the code has it. \<open>addConditionalCheck\<close> compiles the \<open>then\<close> pattern first and
  the \<open>if\<close> pattern second, and \<open>conditional\<close> collects from the first and flags the
  second: the first capture-group text of every match of the \<open>then\<close> pattern is appended
  to the sequence, and after that every match of the \<open>if\<close> pattern yields one alert
  unless its text is in the sequence or in the exceptions.
\<close>

theorem conditional_then_defines_if_flags:
  assumes "Compile env (Then chkDef) = Inr rt" and "Compile env (If_d chkDef) = Inr ri"
    and "cleanText env (NormedExt f) txt = Inr masked"
    and "list_all (valid_span masked) (FindAllStringIndex env ri masked)"
  shows "addConditionalCheck env chkName chkDef st =
           Inr (updateAllChecks env chkDef (RConditional chkDef [rt, ri]) st)
         \<and> conditional env txt chkDef f [rt, ri] =
           Inr (map (\<lambda>loc. alert_at env chkDef (loc_of loc) [substr masked loc])
                  (filter (unknown_text (Sequences f @ first_groups env rt masked) chkDef masked)
                     (FindAllStringIndex env ri masked)),
                f\<lparr>Sequences := Sequences f @ first_groups env rt masked\<rparr>)"
proof
  show "addConditionalCheck env chkName chkDef st =
           Inr (updateAllChecks env chkDef (RConditional chkDef [rt, ri]) st)"
    using assms(1,2)
    by (simp add: addConditionalCheck_def Let_def report_def compile_err_def CheckError_def)
next
  show "conditional env txt chkDef f [rt, ri] =
           Inr (map (\<lambda>loc. alert_at env chkDef (loc_of loc) [substr masked loc])
                  (filter (unknown_text (Sequences f @ first_groups env rt masked) chkDef masked)
                     (FindAllStringIndex env ri masked)),
                f\<lparr>Sequences := Sequences f @ first_groups env rt masked\<rparr>)"
    using assms(3)
    by (simp add: conditional_def Let_def conditional_defs_first_groups
                  conditional_locs_filter [OF assms(4)])
qed

theorem conditional_then_defines_if_flags_witness:
  "Compile demo_env (Then demo_conditional) = Inr (Grp [] (Lit ''HTML''))
   \<and> Compile demo_env (If_d demo_conditional) = Inr (Grp [] (Lit ''CSS''))
   \<and> cleanText demo_env (NormedExt demo_file) ''HTML CSS'' = Inr ''HTML CSS''
   \<and> list_all (valid_span ''HTML CSS'')
        (FindAllStringIndex demo_env (Grp [] (Lit ''CSS'')) ''HTML CSS'')
   \<and> conditional demo_env ''HTML CSS'' demo_conditional demo_file
         [Grp [] (Lit ''HTML''), Grp [] (Lit ''CSS'')] =
       Inr ([alert_at demo_env demo_conditional [5, 8] [''CSS'']],
            demo_file\<lparr>Sequences := [''HTML'']\<rparr>)"
proof -
  have h1: "Compile demo_env (Then demo_conditional) = Inr (Grp [] (Lit ''HTML''))"
    by code_simp
  have h2: "Compile demo_env (If_d demo_conditional) = Inr (Grp [] (Lit ''CSS''))"
    by code_simp
  have h3: "cleanText demo_env (NormedExt demo_file) ''HTML CSS'' = Inr ''HTML CSS''"
    by code_simp
  have h4: "list_all (valid_span ''HTML CSS'')
              (FindAllStringIndex demo_env (Grp [] (Lit ''CSS'')) ''HTML CSS'')"
    by code_simp
  have ev: "Inr (map (\<lambda>loc. alert_at demo_env demo_conditional (loc_of loc)
                                [substr ''HTML CSS'' loc])
                  (filter (unknown_text
                             (Sequences demo_file @
                              first_groups demo_env (Grp [] (Lit ''HTML'')) ''HTML CSS'')
                             demo_conditional ''HTML CSS'')
                     (FindAllStringIndex demo_env (Grp [] (Lit ''CSS'')) ''HTML CSS'')),
                demo_file\<lparr>Sequences := Sequences demo_file @
                             first_groups demo_env (Grp [] (Lit ''HTML'')) ''HTML CSS''\<rparr>) =
            (Inr ([alert_at demo_env demo_conditional [5, 8] [''CSS'']],
                  demo_file\<lparr>Sequences := [''HTML'']\<rparr>) :: panic + alert list \<times> doc_file)"
    by code_simp
  have c: "conditional demo_env ''HTML CSS'' demo_conditional demo_file
             [Grp [] (Lit ''HTML''), Grp [] (Lit ''CSS'')] =
           Inr ([alert_at demo_env demo_conditional [5, 8] [''CSS'']],
                demo_file\<lparr>Sequences := [''HTML'']\<rparr>)"
    using conjunct2 [OF conditional_then_defines_if_flags
                          [OF h1 h2 h3 h4, of "''demo.Cond''" demo_loader]] ev
    by (rule trans)
  show ?thesis using h1 h2 h3 h4 c by (intro conjI)
qed

text \<open>
  C4 as stated fails. A rule with \<open>if: (CSS)\<close> and \<open>then: (HTML)\<close> on the text
  \<open>HTML CSS\<close>: the compiled check puts \<open>HTML\<close>, the capture of the \<open>then\<close> pattern, into
  the sequence and flags \<open>CSS\<close>, the match of the \<open>if\<close> pattern, at \<open>[5, 8]\<close>. What the
  claim describes is the call with the two patterns exchanged, which puts \<open>CSS\<close> into
  the sequence and flags \<open>HTML\<close> at \<open>[0, 4]\<close>.
\<close>

theorem conditional_roles_counterexample:
  "(case addConditionalCheck demo_env ''demo.Cond'' demo_conditional demo_loader of
      Inl p \<Rightarrow> None
    | Inr st \<Rightarrow> map_option rule (AllChecks st ''demo.Cond'')) =
     Some (RConditional demo_conditional [Grp [] (Lit ''HTML''), Grp [] (Lit ''CSS'')])
   \<and> call_rule demo_env
         (RConditional demo_conditional [Grp [] (Lit ''HTML''), Grp [] (Lit ''CSS'')])
         ''HTML CSS'' demo_file [] 0 =
       Inr ([\<lparr>Check = ''demo.Cond'', Severity = ''warning'', Span = [5, 8], Link_a = [],
              Message_a = ''CSS is new'', Description_a = []\<rparr>],
            demo_file\<lparr>Sequences := [''HTML'']\<rparr>, [], 0)
   \<and> conditional demo_env ''HTML CSS'' demo_conditional demo_file
         [Grp [] (Lit ''CSS''), Grp [] (Lit ''HTML'')] =
       Inr ([\<lparr>Check = ''demo.Cond'', Severity = ''warning'', Span = [0, 4], Link_a = [],
              Message_a = ''HTML is new'', Description_a = []\<rparr>],
            demo_file\<lparr>Sequences := [''CSS'']\<rparr>)"
  by code_simp

subsection \<open>Loading\<close>

lemma addCheck_occurrence_no_tokens:
  assumes "yaml_Unmarshal env file (new_definition chkName) = Inr d"
    and "Type d = ''occurrence''" and "Tokens d = []"
  shows "addCheck env file chkName st = Inl IndexOutOfRange"
  using assms by (simp add: addCheck_def Let_def typeToFunc_def addOccurrenceCheck_def)

lemma Split_dot_nonempty: "Split_dot s \<noteq> []"
  by (induction s) (auto split: list.splits)

lemma addScriptCheck_returns: "\<exists>st'. addScriptCheck env chkName chkDef st = Inr st'"
  using Split_dot_nonempty [of chkName]
  by (cases "Split_dot chkName") (simp_all add: addScriptCheck_def Let_def)

lemma addExistenceCheck_returns: "\<exists>st'. addExistenceCheck env chkName chkDef st = Inr st'"
  by (simp add: addExistenceCheck_def Let_def split: sum.splits)

lemma addRepetitionCheck_returns: "\<exists>st'. addRepetitionCheck env chkName chkDef st = Inr st'"
  by (simp add: addRepetitionCheck_def Let_def split: sum.splits)

lemma addConditionalCheck_returns: "\<exists>st'. addConditionalCheck env chkName chkDef st = Inr st'"
  by (simp add: addConditionalCheck_def Let_def split: sum.splits)

lemma addSubstitutionCheck_returns: "\<exists>st'. addSubstitutionCheck env chkName chkDef st = Inr st'"
  by (simp add: addSubstitutionCheck_def Let_def split: sum.splits)

lemma addOccurrenceCheck_returns:
  "Tokens chkDef \<noteq> [] \<Longrightarrow> \<exists>st'. addOccurrenceCheck env chkName chkDef st = Inr st'"
  by (cases "Tokens chkDef") (simp_all add: addOccurrenceCheck_def Let_def split: sum.splits)

lemma addConsistencyCheck_returns:
  "Split_dot chkName = style # chkKey # rest \<Longrightarrow>
   \<exists>st'. addConsistencyCheck env chkName chkDef st = Inr st'"
  by (simp add: addConsistencyCheck_def)

lemma addCheck_returns:
  assumes "Split_dot chkName = style # chkKey # rest"
    and "\<And>d. yaml_Unmarshal env file (new_definition chkName) = Inr d \<Longrightarrow>
              \<not> (Type d = ''occurrence'' \<and> Tokens d = [])"
  shows "\<exists>st'. addCheck env file chkName st = Inr st'"
proof (cases "yaml_Unmarshal env file (new_definition chkName)")
  case (Inl e)
  then show ?thesis by (simp add: addCheck_def)
next
  case (Inr d)
  let ?d1 = "if \<not> StringInSlice (Level d) AlertLevels then d\<lparr>Level := ''suggestion''\<rparr> else d"
  let ?d = "if Scope ?d1 = [] then ?d1\<lparr>Scope := ''text''\<rparr> else ?d1"
  have ty: "Type ?d = Type d" and tk: "Tokens ?d = Tokens d" by simp_all
  have occ: "Type d = ''occurrence'' \<Longrightarrow> Tokens ?d \<noteq> []"
    using assms(2) [OF Inr] by (simp only: tk) simp
  have disp: "addCheck env file chkName st =
                (case typeToFunc (Type d) of
                   Some addCheckFunc \<Rightarrow> addCheckFunc env chkName ?d st
                 | None \<Rightarrow> Inr st)"
    using Inr by (simp add: addCheck_def Let_def)
  consider (conditional) "Type d = ''conditional''" | (consistency) "Type d = ''consistency''"
    | (existence) "Type d = ''existence''" | (occurrence) "Type d = ''occurrence''"
    | (repetition) "Type d = ''repetition''" | (script) "Type d = ''script''"
    | (substitution) "Type d = ''substitution''"
    | (other) "Type d \<notin> {''conditional'', ''consistency'', ''existence'', ''occurrence'',
                           ''repetition'', ''script'', ''substitution''}"
    by blast
  then show ?thesis
  proof cases
    case conditional
    then have "addCheck env file chkName st = addConditionalCheck env chkName ?d st"
      by (simp add: disp typeToFunc_def)
    then show ?thesis using addConditionalCheck_returns [of env chkName ?d st] by simp
  next
    case consistency
    then have "addCheck env file chkName st = addConsistencyCheck env chkName ?d st"
      by (simp add: disp typeToFunc_def)
    then show ?thesis using addConsistencyCheck_returns [OF assms(1), of env ?d st] by simp
  next
    case existence
    then have "addCheck env file chkName st = addExistenceCheck env chkName ?d st"
      by (simp add: disp typeToFunc_def)
    then show ?thesis using addExistenceCheck_returns [of env chkName ?d st] by simp
  next
    case occurrence
    then have "addCheck env file chkName st = addOccurrenceCheck env chkName ?d st"
      by (simp add: disp typeToFunc_def)
    then show ?thesis using addOccurrenceCheck_returns [OF occ [OF occurrence], of env chkName st]
      by simp
  next
    case repetition
    then have "addCheck env file chkName st = addRepetitionCheck env chkName ?d st"
      by (simp add: disp typeToFunc_def)
    then show ?thesis using addRepetitionCheck_returns [of env chkName ?d st] by simp
  next
    case script
    then have "addCheck env file chkName st = addScriptCheck env chkName ?d st"
      by (simp add: disp typeToFunc_def)
    then show ?thesis using addScriptCheck_returns [of env chkName ?d st] by simp
  next
    case substitution
    then have "addCheck env file chkName st = addSubstitutionCheck env chkName ?d st"
      by (simp add: disp typeToFunc_def)
    then show ?thesis using addSubstitutionCheck_returns [of env chkName ?d st] by simp
  next
    case other
    then show ?thesis by (simp add: disp typeToFunc_def)
  qed
qed

lemma addCheck_unknown_kind:
  assumes "yaml_Unmarshal env file (new_definition chkName) = Inr d"
    and "Type d \<notin> {''conditional'', ''consistency'', ''existence'', ''occurrence'',
                    ''repetition'', ''script'', ''substitution''}"
  shows "addCheck env file chkName st = Inr st"
  using assms by (simp add: addCheck_def Let_def typeToFunc_def)

text \<open>
  C7 fails on the code for an occurrence rule without tokens. \<open>addOccurrenceCheck\<close> reads
  \<open>chkDef.Tokens[0]\<close> before anything else, so the rule file \<open>{type: occurrence, max: 2}\<close>
  makes \<open>addCheck\<close> panic: the rule is not dropped with a report, and the load of the
  rule files after it does not happen. For a qualified name \<open>style.rule\<close> this is the only
  definition on which \<open>addCheck\<close> does not return (\<open>addCheck_returns\<close>).
\<close>

theorem addCheck_occurrence_without_tokens_panics:
  "addCheck demo_env ''{type: occurrence, max: 2}'' ''demo.Foo'' demo_loader = Inl IndexOutOfRange
   \<and> addChecks demo_env
        [(''{type: occurrence, max: 2}'', ''demo.Foo''),
         (''{type: existence, nonword: true, tokens: [x]}'', ''demo.Ban'')] demo_loader =
       Inl IndexOutOfRange"
proof -
  have y: "yaml_Unmarshal demo_env ''{type: occurrence, max: 2}'' (new_definition ''demo.Foo'') =
             Inr ((new_definition ''demo.Foo'')\<lparr>Type := ''occurrence'', Max_d := 2\<rparr>)"
    by (simp add: demo_env_def demo_yaml_Unmarshal_def)
  have a: "addCheck demo_env ''{type: occurrence, max: 2}'' ''demo.Foo'' demo_loader =
             Inl IndexOutOfRange"
    by (rule addCheck_occurrence_no_tokens [OF y]) (simp_all add: new_definition_def)
  show ?thesis using a by simp
qed

text \<open>
  A rule file of an unknown kind is dropped without a report, and the rule file after it
  is loaded.
\<close>

lemma addChecks_unknown_kind_example:
  "(case addChecks demo_env
           [(''{type: sparkle}'', ''demo.Odd''),
            (''{type: existence, nonword: true, tokens: [x]}'', ''demo.Ban'')] demo_loader of
      Inl p \<Rightarrow> None
    | Inr st \<Rightarrow>
        Some (map_option rule (AllChecks st ''demo.Odd''),
              map_option rule (AllChecks st ''demo.Ban''), reported st)) =
     Some (None,
           Some (RExistence
                   ((new_definition ''demo.Ban'')
                      \<lparr>Type := ''existence'', Nonword := True, Tokens := [''x''],
                       Level := ''suggestion'', Scope := ''text''\<rparr>)
                   (Lit ''x'')),
           [])"
  by code_simp

subsection \<open>Script\<close>

lemma script_exit_error:
  assumes "snd (Output env k (Runtime chkDef) exe txt) = Some e"
  shows "script env txt chkDef exe f rep k = ([], rep @ [e])"
  using assms by (simp add: script_def Let_def CheckError_def)

lemma script_decode_error:
  assumes "snd (Output env k (Runtime chkDef) exe txt) = None"
    and "json_Unmarshal env (fst (Output env k (Runtime chkDef) exe txt)) [] = (as, Some e)"
  shows "script env txt chkDef exe f rep k = (as, rep @ [e])"
  using assms by (simp add: script_def Let_def CheckError_def)

text \<open>
  C8 fails on the code for output that is an array but not of alert-shaped records.
  \<open>script\<close> returns the list that \<open>json.Unmarshal\<close> has filled, whether or not it returns
  an error. For the output \<open>[{"Check": 1}]\<close> the decoder stores one record and returns a
  type error: the check reports the error and returns one alert, not zero. A non-zero
  exit and output that is not JSON give zero alerts.
\<close>

theorem script_type_error_keeps_record:
  "script demo_env ''number'' demo_script ''styles/demo/scripts/lint.py'' demo_file [] 0 =
     ([zero_alert],
      [''json: cannot unmarshal number into Go struct field Alert.Check of type string''])
   \<and> script demo_env ''exit'' demo_script ''styles/demo/scripts/lint.py'' demo_file [] 0 =
       ([], [''exit status 1''])
   \<and> script demo_env ''garbage'' demo_script ''styles/demo/scripts/lint.py'' demo_file [] 0 =
       ([], [''invalid character looking for beginning of value''])"
  by code_simp

subsection \<open>Running a check twice\<close>

lemma StringInSlice_set: "StringInSlice a xs = (a \<in> set xs)"
  by (simp add: StringInSlice_def)

lemma AllStringsInSlice_set: "AllStringsInSlice strs xs = (set strs \<subseteq> set xs)"
  by (auto simp: AllStringsInSlice_def StringInSlice_set list_all_iff)

lemma conditional_locs_set:
  "set s1 = set s2 \<Longrightarrow>
   conditional_locs env chk txt s1 locs al = conditional_locs env chk txt s2 locs al"
  by (induction locs arbitrary: al) (simp_all add: StringInSlice_set split: sum.splits)

lemma consistency_idx_prefix:
  "consistency_idx names sub idxs (loc, p @ t) =
     (case consistency_idx names sub idxs (loc, t) of
        Inl e \<Rightarrow> Inl e
      | Inr st \<Rightarrow> Inr (fst st, p @ snd st))"
  by (induction idxs arbitrary: loc t) simp_all

lemma consistency_matches_prefix:
  "consistency_matches names ms (loc, p @ t) =
     (case consistency_matches names ms (loc, t) of
        Inl e \<Rightarrow> Inl e
      | Inr st \<Rightarrow> Inr (fst st, p @ snd st))"
proof (induction ms arbitrary: loc t)
  case Nil
  show ?case by simp
next
  case (Cons m ms)
  show ?case
  proof (cases "consistency_idx names (flat m) [0..<length (flat m)] (loc, t)")
    case (Inl e)
    then show ?thesis by (simp add: consistency_idx_prefix)
  next
    case (Inr st)
    then show ?thesis
      using Cons.IH [of "fst st" "snd st"] by (simp add: consistency_idx_prefix)
  qed
qed

lemma conditional_twice:
  assumes "conditional env txt chk f r = Inr (alerts, f1)"
  shows "\<exists>f2. conditional env txt chk f1 r = Inr (alerts, f2)"
proof -
  from assms obtain masked r0 r1 rs where
    c: "cleanText env (NormedExt f) txt = Inr masked" and r: "r = r0 # r1 # rs"
    by (auto simp: conditional_def Let_def split: sum.splits list.splits)
  let ?ds = "FindAllStringSubmatch env r0 masked"
  let ?add = "map (\<lambda>d. d ! 1) (filter (\<lambda>d. length d > 1) ?ds)"
  have app: "conditional_defs s ?ds = s @ ?add" for s
    by (rule conditional_defs_append)
  from assms c r have
    f1: "f1 = f\<lparr>Sequences := Sequences f @ ?add\<rparr>" and
    al: "conditional_locs env chk masked (Sequences f @ ?add)
           (FindAllStringIndex env r1 masked) [] = Inr alerts"
    by (auto simp: conditional_def Let_def app split: sum.splits)
  have "set ((Sequences f @ ?add) @ ?add) = set (Sequences f @ ?add)" by auto
  then have "conditional_locs env chk masked ((Sequences f @ ?add) @ ?add)
               (FindAllStringIndex env r1 masked) [] = Inr alerts"
    using al conditional_locs_set by metis
  then show ?thesis
    using c r by (simp add: conditional_def Let_def app f1)
qed

lemma consistency_twice:
  assumes "consistency env txt chk f r opts = Inr (alerts, f1)"
  shows "\<exists>f2. consistency env txt chk f1 r opts = Inr (alerts, f2)"
proof -
  from assms obtain masked where
    c: "cleanText env (NormedExt f) txt = Inr masked"
    by (auto simp: consistency_def split: sum.splits)
  let ?ms = "FindAllStringSubmatchIndex env r masked"
  from assms c obtain st0 where
    s0: "consistency_matches (SubexpNames env r) ?ms ([], []) = Inr st0"
    using consistency_matches_prefix [of "SubexpNames env r" ?ms "[]" "Sequences f" "[]"]
    by (auto simp: consistency_def Let_def split: sum.splits)
  have run: "consistency_matches (SubexpNames env r) ?ms ([], s) = Inr (fst st0, s @ snd st0)" for s
    using consistency_matches_prefix [of "SubexpNames env r" ?ms "[]" s "[]"] s0 by simp
  have f1: "f1 = f\<lparr>Sequences := Sequences f @ snd st0\<rparr>"
    using assms c by (auto simp: consistency_def Let_def run split: sum.splits if_splits)
  have same: "AllStringsInSlice opts (Sequences f @ snd st0 @ snd st0) =
              AllStringsInSlice opts (Sequences f @ snd st0)"
    by (auto simp: AllStringsInSlice_set)
  show ?thesis
    using assms c
    by (auto simp: consistency_def Let_def run f1 same split: sum.splits if_splits)
qed

lemma existence_file: "existence env txt chk f r = Inr (alerts, f1) \<Longrightarrow> f1 = f"
  by (auto simp: existence_def split: sum.splits)

lemma occurrence_file: "occurrence env txt chk f r lim = Inr (alerts, f1) \<Longrightarrow> f1 = f"
  by (auto simp: occurrence_def Let_def split: sum.splits if_splits list.splits)

lemma repetition_file: "repetition env txt chk f r = Inr (alerts, f1) \<Longrightarrow> f1 = f"
  by (auto simp: repetition_def split: sum.splits)

lemma substitution_file: "substitution env txt chk f r repl = Inr (alerts, f1) \<Longrightarrow> f1 = f"
  by (auto simp: substitution_def split: sum.splits if_splits)

lemma script_same_output:
  assumes "Output env k' (Runtime chkDef) exe txt = Output env k (Runtime chkDef) exe txt"
  shows "fst (script env txt chkDef exe f rep' k') = fst (script env txt chkDef exe f rep k)"
  using assms by (simp add: script_def Let_def CheckError_def split: option.splits)

text \<open>
  C9, as the code has it. For a compiled check of the six kinds other than script:
  when a call on a text and a file returns, the next call on the same text and on the
  file as the first call left it returns the same list of alerts. \<open>conditional\<close> and
  \<open>consistency\<close> append to the sequence of the file, but they only test which strings
  are in it, and the second call appends strings that the first has already appended.
  For a script check the same holds when the external process gives, on the second
  run, the output and the exit status that it gave on the first: \<open>same_output\<close> says
  so for a script check and is true of every other kind.
\<close>

theorem call_rule_twice:
  assumes "call_rule env fn txt f rep k = Inr (alerts, f1, rep1, k1)"
    and "same_output env fn txt k k1"
  shows "\<exists>f2 rep2 k2. call_rule env fn txt f1 rep1 k1 = Inr (alerts, f2, rep2, k2)"
proof (cases fn)
  case (RConditional chkDef expression)
  with assms have "conditional env txt chkDef f expression = Inr (alerts, f1)"
    by (auto simp: keep_reported_def split: sum.splits)
  from conditional_twice [OF this] show ?thesis
    using RConditional by (auto simp: keep_reported_def)
next
  case (RConsistency chkDef re subs)
  with assms have "consistency env txt chkDef f re subs = Inr (alerts, f1)"
    by (auto simp: keep_reported_def split: sum.splits)
  from consistency_twice [OF this] show ?thesis
    using RConsistency by (auto simp: keep_reported_def)
next
  case (RExistence chkDef re)
  with assms have r: "existence env txt chkDef f re = Inr (alerts, f1)"
    by (auto simp: keep_reported_def split: sum.splits)
  with existence_file [OF r] show ?thesis
    using RExistence by (simp add: keep_reported_def)
next
  case (ROccurrence chkDef re lim)
  with assms have r: "occurrence env txt chkDef f re lim = Inr (alerts, f1)"
    by (auto simp: keep_reported_def split: sum.splits)
  with occurrence_file [OF r] show ?thesis
    using ROccurrence by (simp add: keep_reported_def)
next
  case (RRepetition chkDef re)
  with assms have r: "repetition env txt chkDef f re = Inr (alerts, f1)"
    by (auto simp: keep_reported_def split: sum.splits)
  with repetition_file [OF r] show ?thesis
    using RRepetition by (simp add: keep_reported_def)
next
  case (RScript chkDef exe)
  with assms have a: "alerts = fst (script env txt chkDef exe f rep k)" and f: "f1 = f"
    and o: "Output env k1 (Runtime chkDef) exe txt = Output env k (Runtime chkDef) exe txt"
    by (auto simp: Let_def)
  show ?thesis
    using RScript a f script_same_output [OF o, of f rep1 rep]
    by (simp add: Let_def)
next
  case (RSubstitution chkDef re replacements)
  with assms have r: "substitution env txt chkDef f re replacements = Inr (alerts, f1)"
    by (auto simp: keep_reported_def split: sum.splits)
  with substitution_file [OF r] show ?thesis
    using RSubstitution by (simp add: keep_reported_def)
qed

theorem call_rule_twice_witness:
  "call_rule demo_env
     (RConsistency demo_spelling
        (Alt (Grp ''Spelling2'' (Lit ''color'')) (Grp ''Spelling3'' (Lit ''colour'')))
        [''Spelling2'', ''Spelling3''])
     ''color colour'' demo_file [] 0 =
     Inr ([alert_at demo_env demo_spelling [6, 12] [''colour'']],
          demo_file\<lparr>Sequences := [''Spelling2'', ''Spelling3'']\<rparr>, [], 0)
   \<and> (\<exists>f2 rep2 k2.
         call_rule demo_env
           (RConsistency demo_spelling
              (Alt (Grp ''Spelling2'' (Lit ''color'')) (Grp ''Spelling3'' (Lit ''colour'')))
              [''Spelling2'', ''Spelling3''])
           ''color colour'' (demo_file\<lparr>Sequences := [''Spelling2'', ''Spelling3'']\<rparr>) [] 0 =
         Inr ([alert_at demo_env demo_spelling [6, 12] [''colour'']], f2, rep2, k2))
   \<and> call_rule demo_env (RScript demo_script ''styles/demo/scripts/lint.py'')
         ''number'' demo_file [] 0 =
       Inr ([zero_alert], demo_file,
            [''json: cannot unmarshal number into Go struct field Alert.Check of type string''],
            1)
   \<and> same_output demo_env (RScript demo_script ''styles/demo/scripts/lint.py'') ''number'' 0 1
   \<and> (\<exists>f2 rep2 k2.
         call_rule demo_env (RScript demo_script ''styles/demo/scripts/lint.py'')
           ''number'' demo_file
           [''json: cannot unmarshal number into Go struct field Alert.Check of type string'']
           1 =
         Inr ([zero_alert], f2, rep2, k2))"
proof -
  have h: "call_rule demo_env
     (RConsistency demo_spelling
        (Alt (Grp ''Spelling2'' (Lit ''color'')) (Grp ''Spelling3'' (Lit ''colour'')))
        [''Spelling2'', ''Spelling3''])
     ''color colour'' demo_file [] 0 =
     Inr ([alert_at demo_env demo_spelling [6, 12] [''colour'']],
          demo_file\<lparr>Sequences := [''Spelling2'', ''Spelling3'']\<rparr>, [], 0)"
    by code_simp
  have t: "same_output demo_env
     (RConsistency demo_spelling
        (Alt (Grp ''Spelling2'' (Lit ''color'')) (Grp ''Spelling3'' (Lit ''colour'')))
        [''Spelling2'', ''Spelling3''])
     ''color colour'' 0 0"
    by simp
  have g: "call_rule demo_env (RScript demo_script ''styles/demo/scripts/lint.py'')
         ''number'' demo_file [] 0 =
       Inr ([zero_alert], demo_file,
            [''json: cannot unmarshal number into Go struct field Alert.Check of type string''],
            1)"
    by code_simp
  have o: "same_output demo_env (RScript demo_script ''styles/demo/scripts/lint.py'')
             ''number'' 0 1"
    by code_simp
  show ?thesis
    using h call_rule_twice [OF h t] g o call_rule_twice [OF g o] by (intro conjI)
qed

text \<open>
  C9 as stated fails for a script check. The check runs an external process on every
  call and returns what the process prints. The script of the example prints an empty
  array on its first run on the text \<open>flaky\<close> and an array of one alert on its second:
  two calls in succession on the same text and the same file return no alert and then
  one alert.
\<close>

theorem script_twice_counterexample:
  \<open>(case addScriptCheck demo_env ''demo.Lint'' demo_script demo_loader of
      Inl p \<Rightarrow> None
    | Inr st \<Rightarrow> map_option rule (AllChecks st ''demo.Lint'')) =
     Some (RScript demo_script ''styles/demo/scripts/lint.py'')
   \<and> demo_Output 0 ''python'' ''styles/demo/scripts/lint.py'' ''flaky'' = (''[]'', None)
   \<and> demo_Output 1 ''python'' ''styles/demo/scripts/lint.py'' ''flaky'' =
       (''[{"Check": "demo.Lint"}]'', None)
   \<and> call_rule demo_env (RScript demo_script ''styles/demo/scripts/lint.py'')
         ''flaky'' demo_file [] 0 =
       Inr ([], demo_file, [], 1)
   \<and> call_rule demo_env (RScript demo_script ''styles/demo/scripts/lint.py'')
         ''flaky'' demo_file [] 1 =
       Inr ([\<lparr>Check = ''demo.Lint'', Severity = [], Span = [], Link_a = [], Message_a = [],
              Description_a = []\<rparr>], demo_file, [], 2)\<close>
  by code_simp

subsection \<open>Consistency\<close>

lemma template_Type [simp]: "template (d\<lparr>Type := t\<rparr>) s = template d s"
  by (simp add: template_def)

lemma consistency_pairs_others:
  "n \<noteq> Name d \<Longrightarrow>
   AllChecks (consistency_pairs env chkName chkKey vs count d st) n = AllChecks st n"
proof (induction vs arbitrary: count d st)
  case Nil
  show ?case by simp
next
  case (Cons v vs)
  show ?case
  proof (cases "Compile env (template d
                  (consistency_chkRE (consistency_subs chkKey (count + 2)) (fst v) (snd v)))")
    case (Inl e)
    then show ?thesis
      using Cons.IH [of d] Cons.prems by (simp add: Let_def report_def)
  next
    case (Inr re)
    then show ?thesis
      using Cons.IH [of "d\<lparr>Type := chkName\<rparr>"] Cons.prems
      by (simp add: Let_def report_def updateAllChecks_def)
  qed
qed

lemma consistency_pairs_last:
  assumes "Compile env (template d
             (consistency_chkRE (consistency_subs chkKey (count + 2 * int (length vs) + 2))
                (fst v) (snd v))) = Inr re"
  shows "AllChecks (consistency_pairs env chkName chkKey (vs @ [v]) count d st) (Name d) =
           Some (consistency_entry env chkName d re
                   (consistency_subs chkKey (count + 2 * int (length vs) + 2)))"
  using assms
proof (induction vs arbitrary: count d st)
  case Nil
  then show ?case
    by (simp add: Let_def report_def updateAllChecks_def consistency_entry_def)
next
  case (Cons x xs)
  have cnt: "count + 2 + 2 * int (length xs) + 2 = count + 2 * int (length (x # xs)) + 2"
    by simp
  show ?case
  proof (cases "Compile env (template d
                  (consistency_chkRE (consistency_subs chkKey (count + 2)) (fst x) (snd x)))")
    case (Inl e)
    have "Compile env (template d
            (consistency_chkRE (consistency_subs chkKey (count + 2 + 2 * int (length xs) + 2))
               (fst v) (snd v))) = Inr re"
      using Cons.prems by (simp only: cnt)
    from Cons.IH [OF this] show ?thesis
      using Inl by (simp add: Let_def cnt)
  next
    case (Inr rx)
    let ?d = "d\<lparr>Type := chkName\<rparr>"
    have "Compile env (template ?d
            (consistency_chkRE (consistency_subs chkKey (count + 2 + 2 * int (length xs) + 2))
               (fst v) (snd v))) = Inr re"
      using Cons.prems by (simp only: cnt template_Type)
    from Cons.IH [OF this] show ?thesis
      using Inr by (simp add: Let_def cnt consistency_entry_def)
  qed
qed

text \<open>
  C10. \<open>addConsistencyCheck\<close> calls \<open>updateAllChecks\<close> once for every pair whose pattern
  compiles, always under the name of the definition. When the pattern of the pair that
  the loop visits last compiles, the registry after the call differs from the registry
  before it in that one entry only, and the entry is the matcher of that last pair
  alone: its pattern and its two group names; the matchers of the other pairs are gone.
\<close>

theorem addConsistencyCheck_last_pair:
  assumes "Split_dot chkName = style # chkKey # rest"
    and "Map chkDef = pairs @ [(v1, v2)]"
    and "Compile env (template chkDef
           (consistency_chkRE (consistency_subs chkKey (2 * int (length (Map chkDef)))) v1 v2)) =
         Inr re"
  shows "\<exists>st'. addConsistencyCheck env chkName chkDef st = Inr st'
           \<and> AllChecks st' =
               (AllChecks st)(Name chkDef \<mapsto>
                  consistency_entry env chkName chkDef re
                    (consistency_subs chkKey (2 * int (length (Map chkDef)))))"
proof -
  let ?st = "consistency_pairs env chkName chkKey (pairs @ [(v1, v2)]) 0 chkDef st"
  let ?e = "consistency_entry env chkName chkDef re
              (consistency_subs chkKey (2 * int (length (Map chkDef))))"
  have len: "2 * int (length (Map chkDef)) = 0 + 2 * int (length pairs) + 2"
    by (simp add: assms(2))
  have c: "Compile env (template chkDef
             (consistency_chkRE (consistency_subs chkKey (0 + 2 * int (length pairs) + 2))
                (fst (v1, v2)) (snd (v1, v2)))) = Inr re"
    using assms(3) by (simp only: len fst_conv snd_conv)
  have at: "AllChecks ?st (Name chkDef) = Some ?e"
    using consistency_pairs_last [OF c] by (simp only: len)
  have "AllChecks ?st n = ((AllChecks st)(Name chkDef \<mapsto> ?e)) n" for n
    using at consistency_pairs_others [of n chkDef env chkName chkKey "pairs @ [(v1, v2)]" 0 st]
    by (cases "n = Name chkDef") simp_all
  then have "AllChecks ?st = (AllChecks st)(Name chkDef \<mapsto> ?e)" by (rule ext)
  then show ?thesis
    using assms(1,2) by (simp add: addConsistencyCheck_def)
qed

theorem addConsistencyCheck_last_pair_witness:
  "Split_dot ''demo.Spelling'' = ''demo'' # ''Spelling'' # []
   \<and> Map demo_consistency = [(''color'', ''colour'')] @ [(''center'', ''centre'')]
   \<and> Compile demo_env (template demo_consistency
         (consistency_chkRE (consistency_subs ''Spelling'' (2 * int (length (Map demo_consistency))))
            ''center'' ''centre'')) =
       Inr (Alt (Grp ''Spelling4'' (Lit ''center'')) (Grp ''Spelling5'' (Lit ''centre'')))
   \<and> (\<exists>st'. addConsistencyCheck demo_env ''demo.Spelling'' demo_consistency demo_loader = Inr st'
           \<and> AllChecks st' =
               (AllChecks demo_loader)(Name demo_consistency \<mapsto>
                  consistency_entry demo_env ''demo.Spelling'' demo_consistency
                    (Alt (Grp ''Spelling4'' (Lit ''center'')) (Grp ''Spelling5'' (Lit ''centre'')))
                    (consistency_subs ''Spelling'' (2 * int (length (Map demo_consistency))))))
   \<and> consistency_subs ''Spelling'' (2 * int (length (Map demo_consistency))) =
       [''Spelling4'', ''Spelling5'']
   \<and> call_rule demo_env
         (RConsistency (demo_consistency\<lparr>Type := ''demo.Spelling''\<rparr>)
            (Alt (Grp ''Spelling4'' (Lit ''center'')) (Grp ''Spelling5'' (Lit ''centre'')))
            [''Spelling4'', ''Spelling5''])
         ''color colour'' demo_file [] 0 =
       Inr ([], demo_file, [], 0)"
proof -
  have h1: "Split_dot ''demo.Spelling'' = ''demo'' # ''Spelling'' # []"
    by code_simp
  have h2: "Map demo_consistency = [(''color'', ''colour'')] @ [(''center'', ''centre'')]"
    by code_simp
  have h3: "Compile demo_env (template demo_consistency
         (consistency_chkRE (consistency_subs ''Spelling'' (2 * int (length (Map demo_consistency))))
            ''center'' ''centre'')) =
       Inr (Alt (Grp ''Spelling4'' (Lit ''center'')) (Grp ''Spelling5'' (Lit ''centre'')))"
    by code_simp
  have s: "consistency_subs ''Spelling'' (2 * int (length (Map demo_consistency))) =
             [''Spelling4'', ''Spelling5'']"
    by code_simp
  have r: "call_rule demo_env
         (RConsistency (demo_consistency\<lparr>Type := ''demo.Spelling''\<rparr>)
            (Alt (Grp ''Spelling4'' (Lit ''center'')) (Grp ''Spelling5'' (Lit ''centre'')))
            [''Spelling4'', ''Spelling5''])
         ''color colour'' demo_file [] 0 =
       Inr ([], demo_file, [], 0)"
    by code_simp
  show ?thesis
    using h1 h2 h3 addConsistencyCheck_last_pair [OF h1 h2 h3, of demo_loader] s r
    by (intro conjI)
qed

lemma flat_length: "length (flat m) = 2 + 2 * length (snd m)"
  by (simp add: flat_def length_concat comp_def sum_list_triv)

lemma upt_group_pairs: "[0..<2 + 2 * n] = 0 # 1 # group_pairs n"
proof (induction n)
  case 0
  show ?case by (simp add: group_pairs_def upt_rec)
next
  case (Suc n)
  have "[0..<2 + 2 * Suc n] = [0..<2 + 2 * n] @ [2 * n + 2, 2 * n + 3]"
    by (simp add: numeral_eq_Suc)
  then show ?case using Suc by (simp add: group_pairs_def)
qed

lemma concat_pairs_nth:
  "j < length gs \<Longrightarrow>
   concat (map (\<lambda>g. [fst g, snd g]) gs) ! (2 * j) = fst (gs ! j)
   \<and> concat (map (\<lambda>g. [fst g, snd g]) gs) ! Suc (2 * j) = snd (gs ! j)"
proof (induction gs arbitrary: j)
  case Nil
  then show ?case by simp
next
  case (Cons g gs)
  then show ?case by (cases j) simp_all
qed

lemma flat_nth:
  assumes "j < length (snd m)"
  shows "flat m ! (2 * j + 2) = fst (snd m ! j)" and "flat m ! (2 * j + 3) = snd (snd m ! j)"
  using concat_pairs_nth [OF assms] by (simp_all add: flat_def numeral_eq_Suc)

lemma consistency_idx_skip:
  "\<not> (sub ! idx \<noteq> -1 \<and> 0 < idx \<and> idx mod 2 = 0) \<Longrightarrow>
   consistency_idx names sub (idx # idxs) st = consistency_idx names sub idxs st"
  by auto

lemma consistency_idx_take:
  "sub ! idx \<noteq> -1 \<Longrightarrow> 0 < idx \<Longrightarrow> idx mod 2 = 0 \<Longrightarrow> idx + 1 < length sub \<Longrightarrow>
   idx div 2 < length names \<Longrightarrow>
   consistency_idx names sub (idx # idxs) st =
     consistency_idx names sub idxs ([sub ! idx, sub ! (idx + 1)], snd st @ [names ! (idx div 2)])"
  by simp

lemma consistency_idx_groups:
  assumes "list_all (\<lambda>j. j < length (snd m)) js" and "length (snd m) < length names"
  shows "consistency_idx names (flat m) (concat (map (\<lambda>j. [2 * j + 2, 2 * j + 3]) js)) st =
           Inr (foldl (consistency_step names) st
                  (map (\<lambda>j. (j, snd m ! j)) (filter (\<lambda>j. fst (snd m ! j) \<noteq> -1) js)))"
  using assms(1)
proof (induction js arbitrary: st)
  case Nil
  show ?case by simp
next
  case (Cons j js)
  then have j: "j < length (snd m)" and js: "list_all (\<lambda>j. j < length (snd m)) js"
    by simp_all
  let ?rest = "concat (map (\<lambda>j. [2 * j + 2, 2 * j + 3]) js)"
  have e: "concat (map (\<lambda>j. [2 * j + 2, 2 * j + 3]) (j # js)) = (2 * j + 2) # (2 * j + 3) # ?rest"
    by simp
  have odd: "\<not> (flat m ! (2 * j + 3) \<noteq> -1 \<and> 0 < 2 * j + 3 \<and> (2 * j + 3) mod 2 = 0)"
    by presburger
  have s3: "consistency_idx names (flat m) ((2 * j + 3) # ?rest) st' =
            consistency_idx names (flat m) ?rest st'" for st'
    by (rule consistency_idx_skip [OF odd])
  show ?case
  proof (cases "fst (snd m ! j) = -1")
    case True
    then have "\<not> (flat m ! (2 * j + 2) \<noteq> -1 \<and> 0 < 2 * j + 2 \<and> (2 * j + 2) mod 2 = 0)"
      by (simp only: flat_nth(1) [OF j]) simp
    then have "consistency_idx names (flat m) ((2 * j + 2) # (2 * j + 3) # ?rest) st =
               consistency_idx names (flat m) ((2 * j + 3) # ?rest) st"
      by (rule consistency_idx_skip)
    then show ?thesis
      using Cons.IH [OF js, of st] True by (simp only: e s3 filter.simps) simp
  next
    case False
    have p1: "flat m ! (2 * j + 2) \<noteq> -1" using False by (simp only: flat_nth(1) [OF j]) simp
    have p2: "0 < 2 * j + 2" by simp
    have p3: "(2 * j + 2) mod 2 = 0" by presburger
    have p4: "2 * j + 2 + 1 < length (flat m)" using j by (simp add: flat_length)
    have p5: "(2 * j + 2) div 2 < length names" using j assms(2) by simp
    have st: "([flat m ! (2 * j + 2), flat m ! (2 * j + 2 + 1)],
               snd st @ [names ! ((2 * j + 2) div 2)]) =
              consistency_step names st (j, snd m ! j)"
    proof -
      have "2 * j + 2 + 1 = 2 * j + 3" by simp
      then have "flat m ! (2 * j + 2 + 1) = snd (snd m ! j)"
        using flat_nth(2) [OF j] by (simp only:)
      moreover have "(2 * j + 2) div 2 = Suc j" by simp
      ultimately show ?thesis
        by (simp only: flat_nth(1) [OF j] consistency_step_def loc_of_def fst_conv snd_conv)
    qed
    have "consistency_idx names (flat m) ((2 * j + 2) # (2 * j + 3) # ?rest) st =
          consistency_idx names (flat m) ((2 * j + 3) # ?rest)
            (consistency_step names st (j, snd m ! j))"
      using consistency_idx_take [OF p1 p2 p3 p4 p5, of "(2 * j + 3) # ?rest" st]
      by (simp only: st)
    then show ?thesis
      using Cons.IH [OF js, of "consistency_step names st (j, snd m ! j)"] False
      by (simp only: e s3 filter.simps) simp
  qed
qed

lemma consistency_idx_match:
  assumes "length (snd m) < length names"
  shows "consistency_idx names (flat m) [0..<length (flat m)] st =
           Inr (foldl (consistency_step names) st
                  (map (\<lambda>j. (j, snd m ! j)) (participating (snd m))))"
proof -
  have all: "list_all (\<lambda>j. j < length (snd m)) [0..<length (snd m)]"
    by (simp add: list_all_iff)
  have "consistency_idx names (flat m) (0 # 1 # group_pairs (length (snd m))) st =
        consistency_idx names (flat m) (group_pairs (length (snd m))) st"
    by simp
  then show ?thesis
    using consistency_idx_groups [OF all assms, of st]
    by (simp only: flat_length upt_group_pairs group_pairs_def participating_def)
qed

lemma consistency_matches_hits:
  assumes "list_all (\<lambda>m. length (snd m) < length names) ms"
  shows "consistency_matches names ms st = Inr (foldl (consistency_step names) st (group_hits ms))"
  using assms
proof (induction ms arbitrary: st)
  case Nil
  show ?case by (simp add: group_hits_def)
next
  case (Cons m ms)
  then have m: "length (snd m) < length names"
    and ms: "list_all (\<lambda>m. length (snd m) < length names) ms" by simp_all
  show ?case
    using Cons.IH [OF ms] by (simp add: consistency_idx_match [OF m] group_hits_def)
qed

lemma foldl_consistency_step:
  "foldl (consistency_step names) st hs =
     (if hs = [] then fst st else loc_of (snd (last hs)),
      snd st @ map (\<lambda>h. names ! Suc (fst h)) hs)"
  by (induction hs rule: rev_induct) (simp_all add: consistency_step_def)

lemma group_hits_Cons:
  "group_hits (m # ms) = map (\<lambda>j. (j, snd m ! j)) (participating (snd m)) @ group_hits ms"
  by (simp add: group_hits_def)

lemma group_hits_whole:
  "list_all whole_match ms \<Longrightarrow> map snd (group_hits ms) = map fst ms"
proof (induction ms)
  case Nil
  show ?case by (simp add: group_hits_def)
next
  case (Cons m ms)
  then have w: "map ((!) (snd m)) (participating (snd m)) = [fst m]"
    and r: "map snd (group_hits ms) = map fst ms"
    by (simp_all add: whole_match_def)
  have "map snd (map (\<lambda>j. (j, snd m ! j)) (participating (snd m))) = [fst m]"
    using w by (simp add: comp_def)
  then show ?case using r by (simp add: group_hits_Cons del: map_map)
qed

lemma group_hits_last_whole:
  assumes "ms \<noteq> []" and "list_all whole_match ms"
  shows "snd (last (group_hits ms)) = fst (last ms)"
proof -
  have e: "map snd (group_hits ms) = map fst ms" by (rule group_hits_whole [OF assms(2)])
  then have ne: "group_hits ms \<noteq> []" using assms(1) by auto
  have "snd (last (group_hits ms)) = last (map snd (group_hits ms))"
    using ne by (simp add: last_map)
  also have "\<dots> = fst (last ms)" using assms(1) by (simp add: e last_map)
  finally show ?thesis .
qed

lemma consistency_on_copy:
  assumes "cleanText env (NormedExt f) txt = Inr masked"
    and "list_all (\<lambda>m. length (snd m) < length (SubexpNames env r))
           (FindAllStringSubmatchIndex env r masked)"
    and "list_all (\<lambda>h. valid_span masked (snd h))
           (group_hits (FindAllStringSubmatchIndex env r masked))"
    and "list_all (\<lambda>m. participating (snd m) \<noteq> []) (FindAllStringSubmatchIndex env r masked)"
  shows "consistency env txt chk f r opts =
           Inr (if FindAllStringSubmatchIndex env r masked \<noteq> [] \<and>
                   AllStringsInSlice opts
                     (Sequences f @
                      hit_names env r (group_hits (FindAllStringSubmatchIndex env r masked)))
                then [alert_at env chk
                        (loc_of (snd (last (group_hits (FindAllStringSubmatchIndex env r masked)))))
                        [substr masked
                           (snd (last (group_hits (FindAllStringSubmatchIndex env r masked))))]]
                else [],
                f\<lparr>Sequences :=
                    Sequences f @
                    hit_names env r (group_hits (FindAllStringSubmatchIndex env r masked))\<rparr>)"
proof -
  let ?ms = "FindAllStringSubmatchIndex env r masked"
  let ?hs = "group_hits ?ms"
  let ?seqs = "Sequences f @ hit_names env r ?hs"
  have run: "consistency_matches (SubexpNames env r) ?ms ([], Sequences f) =
               Inr (if ?hs = [] then [] else loc_of (snd (last ?hs)), ?seqs)"
    by (simp add: consistency_matches_hits [OF assms(2)] foldl_consistency_step hit_names_def)
  show ?thesis
  proof (cases "?ms \<noteq> [] \<and> AllStringsInSlice opts ?seqs")
    case False
    then show ?thesis using assms(1) by (auto simp: consistency_def Let_def run)
  next
    case True
    then obtain m ms' where ms: "?ms = m # ms'" by (cases ?ms) auto
    then have "participating (snd m) \<noteq> []" using assms(4) by simp
    then have hs: "?hs \<noteq> []" by (simp add: ms group_hits_Cons)
    have v: "valid_span masked (snd (last ?hs))"
      using assms(3) hs by (simp add: list_all_iff)
    show ?thesis
      using assms(1) True hs
      by (simp add: consistency_def Let_def run makeAlert_valid [OF v])
  qed
qed

text \<open>
  C6, as the code has it. Every capture group that takes part in a match appends its
  name to the sequence of the file. After all matches, the check returns exactly one
  alert when the text had a match and both names of the pair are in the sequence, and
  no alert otherwise. The alert is at the span of the last capture group that took part
  in a match; that is the span of the last match of the text when in every match
  exactly one group took part and spans the whole match, as with variants that have
  no capture group of their own. The check returns no alert when a name of the pair is
  neither in the sequence before the scan nor the name of a group that took part in a
  match: one variant alone raises no alert unless the sequence held the name of the
  other already.
\<close>

theorem consistency_alert_at_last_group:
  assumes "cleanText env (NormedExt f) txt = Inr masked"
    and "list_all (\<lambda>m. length (snd m) < length (SubexpNames env r))
           (FindAllStringSubmatchIndex env r masked)"
    and "list_all (\<lambda>h. valid_span masked (snd h))
           (group_hits (FindAllStringSubmatchIndex env r masked))"
    and "list_all (\<lambda>m. participating (snd m) \<noteq> []) (FindAllStringSubmatchIndex env r masked)"
  shows "consistency env txt chk f r opts =
           Inr (if FindAllStringSubmatchIndex env r masked \<noteq> [] \<and>
                   AllStringsInSlice opts
                     (Sequences f @
                      hit_names env r (group_hits (FindAllStringSubmatchIndex env r masked)))
                then [alert_at env chk
                        (loc_of (snd (last (group_hits (FindAllStringSubmatchIndex env r masked)))))
                        [substr masked
                           (snd (last (group_hits (FindAllStringSubmatchIndex env r masked))))]]
                else [],
                f\<lparr>Sequences :=
                    Sequences f @
                    hit_names env r (group_hits (FindAllStringSubmatchIndex env r masked))\<rparr>)
         \<and> (FindAllStringSubmatchIndex env r masked \<noteq> [] \<and>
            list_all whole_match (FindAllStringSubmatchIndex env r masked) \<longrightarrow>
              snd (last (group_hits (FindAllStringSubmatchIndex env r masked))) =
              fst (last (FindAllStringSubmatchIndex env r masked)))
         \<and> (list_ex (\<lambda>n. \<not> StringInSlice n (Sequences f) \<and>
                         \<not> StringInSlice n
                             (hit_names env r
                                (group_hits (FindAllStringSubmatchIndex env r masked)))) opts \<longrightarrow>
              consistency env txt chk f r opts =
                Inr ([], f\<lparr>Sequences :=
                             Sequences f @
                             hit_names env r
                               (group_hits (FindAllStringSubmatchIndex env r masked))\<rparr>))"
proof -
  let ?ms = "FindAllStringSubmatchIndex env r masked"
  let ?hs = "group_hits ?ms"
  let ?seqs = "Sequences f @ hit_names env r ?hs"
  have eq: "consistency env txt chk f r opts =
           Inr (if ?ms \<noteq> [] \<and> AllStringsInSlice opts ?seqs
                then [alert_at env chk (loc_of (snd (last ?hs))) [substr masked (snd (last ?hs))]]
                else [],
                f\<lparr>Sequences := ?seqs\<rparr>)"
    by (rule consistency_on_copy [OF assms])
  have whole: "?ms \<noteq> [] \<and> list_all whole_match ?ms \<longrightarrow> snd (last ?hs) = fst (last ?ms)"
    using group_hits_last_whole by blast
  have none: "list_ex (\<lambda>n. \<not> StringInSlice n (Sequences f) \<and>
                           \<not> StringInSlice n (hit_names env r ?hs)) opts \<longrightarrow>
              consistency env txt chk f r opts = Inr ([], f\<lparr>Sequences := ?seqs\<rparr>)"
  proof
    assume "list_ex (\<lambda>n. \<not> StringInSlice n (Sequences f) \<and>
                         \<not> StringInSlice n (hit_names env r ?hs)) opts"
    then have "\<not> AllStringsInSlice opts ?seqs"
      by (auto simp: AllStringsInSlice_set StringInSlice_set list_ex_iff)
    then show "consistency env txt chk f r opts = Inr ([], f\<lparr>Sequences := ?seqs\<rparr>)"
      by (simp add: eq)
  qed
  show ?thesis using eq whole none by (intro conjI)
qed

theorem consistency_alert_at_last_group_witness:
  "cleanText demo_env (NormedExt demo_file) ''color colour'' = Inr ''color colour''
   \<and> list_all (\<lambda>m. length (snd m) <
                  length (SubexpNames demo_env
                    (Alt (Grp ''Spelling2'' (Lit ''color'')) (Grp ''Spelling3'' (Lit ''colour'')))))
        (FindAllStringSubmatchIndex demo_env
           (Alt (Grp ''Spelling2'' (Lit ''color'')) (Grp ''Spelling3'' (Lit ''colour'')))
           ''color colour'')
   \<and> list_all (\<lambda>h. valid_span ''color colour'' (snd h))
        (group_hits (FindAllStringSubmatchIndex demo_env
           (Alt (Grp ''Spelling2'' (Lit ''color'')) (Grp ''Spelling3'' (Lit ''colour'')))
           ''color colour''))
   \<and> list_all (\<lambda>m. participating (snd m) \<noteq> [])
        (FindAllStringSubmatchIndex demo_env
           (Alt (Grp ''Spelling2'' (Lit ''color'')) (Grp ''Spelling3'' (Lit ''colour'')))
           ''color colour'')
   \<and> consistency demo_env ''color colour'' demo_spelling demo_file
         (Alt (Grp ''Spelling2'' (Lit ''color'')) (Grp ''Spelling3'' (Lit ''colour'')))
         [''Spelling2'', ''Spelling3''] =
       Inr ([alert_at demo_env demo_spelling [6, 12] [''colour'']],
            demo_file\<lparr>Sequences := [''Spelling2'', ''Spelling3'']\<rparr>)
   \<and> FindAllStringSubmatchIndex demo_env
         (Alt (Grp ''Spelling2'' (Lit ''color'')) (Grp ''Spelling3'' (Lit ''colour'')))
         ''color colour'' =
       [((0, 5), [(0, 5), (-1, -1)]), ((6, 12), [(-1, -1), (6, 12)])]
   \<and> list_all whole_match
        (FindAllStringSubmatchIndex demo_env
           (Alt (Grp ''Spelling2'' (Lit ''color'')) (Grp ''Spelling3'' (Lit ''colour'')))
           ''color colour'')
   \<and> snd (last (group_hits (FindAllStringSubmatchIndex demo_env
           (Alt (Grp ''Spelling2'' (Lit ''color'')) (Grp ''Spelling3'' (Lit ''colour'')))
           ''color colour''))) =
       fst (last (FindAllStringSubmatchIndex demo_env
           (Alt (Grp ''Spelling2'' (Lit ''color'')) (Grp ''Spelling3'' (Lit ''colour'')))
           ''color colour''))
   \<and> cleanText demo_env (NormedExt demo_file) ''color color'' = Inr ''color color''
   \<and> list_all (\<lambda>m. length (snd m) <
                  length (SubexpNames demo_env
                    (Alt (Grp ''Spelling2'' (Lit ''color'')) (Grp ''Spelling3'' (Lit ''colour'')))))
        (FindAllStringSubmatchIndex demo_env
           (Alt (Grp ''Spelling2'' (Lit ''color'')) (Grp ''Spelling3'' (Lit ''colour'')))
           ''color color'')
   \<and> list_all (\<lambda>h. valid_span ''color color'' (snd h))
        (group_hits (FindAllStringSubmatchIndex demo_env
           (Alt (Grp ''Spelling2'' (Lit ''color'')) (Grp ''Spelling3'' (Lit ''colour'')))
           ''color color''))
   \<and> list_all (\<lambda>m. participating (snd m) \<noteq> [])
        (FindAllStringSubmatchIndex demo_env
           (Alt (Grp ''Spelling2'' (Lit ''color'')) (Grp ''Spelling3'' (Lit ''colour'')))
           ''color color'')
   \<and> list_ex (\<lambda>n. \<not> StringInSlice n (Sequences demo_file) \<and>
                   \<not> StringInSlice n
                       (hit_names demo_env
                          (Alt (Grp ''Spelling2'' (Lit ''color'')) (Grp ''Spelling3'' (Lit ''colour'')))
                          (group_hits (FindAllStringSubmatchIndex demo_env
                             (Alt (Grp ''Spelling2'' (Lit ''color''))
                                  (Grp ''Spelling3'' (Lit ''colour'')))
                             ''color color''))))
        [''Spelling2'', ''Spelling3'']
   \<and> consistency demo_env ''color color'' demo_spelling demo_file
         (Alt (Grp ''Spelling2'' (Lit ''color'')) (Grp ''Spelling3'' (Lit ''colour'')))
         [''Spelling2'', ''Spelling3''] =
       Inr ([], demo_file\<lparr>Sequences := [''Spelling2'', ''Spelling2'']\<rparr>)"
proof -
  let ?r = "Alt (Grp ''Spelling2'' (Lit ''color'')) (Grp ''Spelling3'' (Lit ''colour''))"
  let ?ms = "FindAllStringSubmatchIndex demo_env ?r ''color colour''"
  let ?ns = "FindAllStringSubmatchIndex demo_env ?r ''color color''"
  have h1: "cleanText demo_env (NormedExt demo_file) ''color colour'' = Inr ''color colour''"
    by code_simp
  have h2: "list_all (\<lambda>m. length (snd m) < length (SubexpNames demo_env ?r)) ?ms"
    by code_simp
  have h3: "list_all (\<lambda>h. valid_span ''color colour'' (snd h)) (group_hits ?ms)"
    by code_simp
  have h4: "list_all (\<lambda>m. participating (snd m) \<noteq> []) ?ms"
    by code_simp
  have ms: "?ms = [((0, 5), [(0, 5), (-1, -1)]), ((6, 12), [(-1, -1), (6, 12)])]"
    by code_simp
  have ne: "?ms \<noteq> []"
    by (simp add: ms)
  have w: "list_all whole_match ?ms"
    by code_simp
  have ev: "Inr (if ?ms \<noteq> [] \<and>
                   AllStringsInSlice [''Spelling2'', ''Spelling3'']
                     (Sequences demo_file @ hit_names demo_env ?r (group_hits ?ms))
                then [alert_at demo_env demo_spelling (loc_of (snd (last (group_hits ?ms))))
                        [substr ''color colour'' (snd (last (group_hits ?ms)))]]
                else [],
                demo_file\<lparr>Sequences :=
                    Sequences demo_file @ hit_names demo_env ?r (group_hits ?ms)\<rparr>) =
            (Inr ([alert_at demo_env demo_spelling [6, 12] [''colour'']],
                  demo_file\<lparr>Sequences := [''Spelling2'', ''Spelling3'']\<rparr>)
               :: panic + alert list \<times> doc_file)"
    by code_simp
  note t = consistency_alert_at_last_group
             [OF h1 h2 h3 h4, of demo_spelling "[''Spelling2'', ''Spelling3'']"]
  have c: "consistency demo_env ''color colour'' demo_spelling demo_file ?r
             [''Spelling2'', ''Spelling3''] =
           Inr ([alert_at demo_env demo_spelling [6, 12] [''colour'']],
                demo_file\<lparr>Sequences := [''Spelling2'', ''Spelling3'']\<rparr>)"
    using conjunct1 [OF t] ev by (rule trans)
  have l: "snd (last (group_hits ?ms)) = fst (last ?ms)"
    using conjunct1 [OF conjunct2 [OF t]] ne w by (simp only: simp_thms)
  have g1: "cleanText demo_env (NormedExt demo_file) ''color color'' = Inr ''color color''"
    by code_simp
  have g2: "list_all (\<lambda>m. length (snd m) < length (SubexpNames demo_env ?r)) ?ns"
    by code_simp
  have g3: "list_all (\<lambda>h. valid_span ''color color'' (snd h)) (group_hits ?ns)"
    by code_simp
  have g4: "list_all (\<lambda>m. participating (snd m) \<noteq> []) ?ns"
    by code_simp
  have x: "list_ex (\<lambda>n. \<not> StringInSlice n (Sequences demo_file) \<and>
                        \<not> StringInSlice n (hit_names demo_env ?r (group_hits ?ns)))
             [''Spelling2'', ''Spelling3'']"
    by code_simp
  have ev2: "Inr ([], demo_file\<lparr>Sequences :=
                    Sequences demo_file @ hit_names demo_env ?r (group_hits ?ns)\<rparr>) =
            (Inr ([], demo_file\<lparr>Sequences := [''Spelling2'', ''Spelling2'']\<rparr>)
               :: panic + alert list \<times> doc_file)"
    by code_simp
  note u = consistency_alert_at_last_group
             [OF g1 g2 g3 g4, of demo_spelling "[''Spelling2'', ''Spelling3'']"]
  have d0: "consistency demo_env ''color color'' demo_spelling demo_file ?r
             [''Spelling2'', ''Spelling3''] =
           Inr ([], demo_file\<lparr>Sequences :=
                    Sequences demo_file @ hit_names demo_env ?r (group_hits ?ns)\<rparr>)"
    using conjunct2 [OF conjunct2 [OF u]] x by (rule mp)
  have d: "consistency demo_env ''color color'' demo_spelling demo_file ?r
             [''Spelling2'', ''Spelling3''] =
           Inr ([], demo_file\<lparr>Sequences := [''Spelling2'', ''Spelling2'']\<rparr>)"
    using d0 ev2 by (rule trans)
  show ?thesis using h1 h2 h3 h4 c ms w l g1 g2 g3 g4 x d by (intro conjI)
qed

text \<open>
  C6 as stated fails in two ways. On \<open>color colour color\<close> the pair is complete at the
  second match, \<open>[6, 12]\<close>, but the alert is at the third, \<open>[13, 18]\<close>. And on a text
  without a match no alert is raised although both names are in the sequence.
\<close>

theorem consistency_last_match_counterexample:
  "(case addConsistencyCheck demo_env ''demo.Spelling'' demo_spelling demo_loader of
      Inl p \<Rightarrow> None
    | Inr st \<Rightarrow> map_option rule (AllChecks st ''demo.Spelling'')) =
     Some (RConsistency (demo_spelling\<lparr>Type := ''demo.Spelling''\<rparr>)
             (Alt (Grp ''Spelling2'' (Lit ''color'')) (Grp ''Spelling3'' (Lit ''colour'')))
             [''Spelling2'', ''Spelling3''])
   \<and> call_rule demo_env
         (RConsistency (demo_spelling\<lparr>Type := ''demo.Spelling''\<rparr>)
            (Alt (Grp ''Spelling2'' (Lit ''color'')) (Grp ''Spelling3'' (Lit ''colour'')))
            [''Spelling2'', ''Spelling3''])
         ''color colour color'' demo_file [] 0 =
       Inr ([\<lparr>Check = ''demo.Spelling'', Severity = ''warning'', Span = [13, 18], Link_a = [],
              Message_a = ''inconsistent spelling of color'', Description_a = []\<rparr>],
            demo_file\<lparr>Sequences := [''Spelling2'', ''Spelling3'', ''Spelling2'']\<rparr>, [], 0)
   \<and> call_rule demo_env
         (RConsistency (demo_spelling\<lparr>Type := ''demo.Spelling''\<rparr>)
            (Alt (Grp ''Spelling2'' (Lit ''color'')) (Grp ''Spelling3'' (Lit ''colour'')))
            [''Spelling2'', ''Spelling3''])
         ''no match here'' (demo_file\<lparr>Sequences := [''Spelling2'', ''Spelling3'']\<rparr>) [] 0 =
       Inr ([], demo_file\<lparr>Sequences := [''Spelling2'', ''Spelling3'']\<rparr>, [], 0)"
  by code_simp

subsection \<open>Substitution\<close>

lemma substitution_idx_skip:
  "\<not> (sub ! idx \<noteq> -1 \<and> 0 < idx \<and> idx mod 2 = 0) \<Longrightarrow>
   substitution_idx env chk txt repl sub (idx # idxs) al =
     substitution_idx env chk txt repl sub idxs al"
  by auto

lemma substitution_idx_take:
  "sub ! idx \<noteq> -1 \<Longrightarrow> 0 < idx \<Longrightarrow> idx mod 2 = 0 \<Longrightarrow> idx + 1 < length sub \<Longrightarrow>
   idx div 2 - 1 < length repl \<Longrightarrow> valid_span txt (sub ! idx, sub ! (idx + 1)) \<Longrightarrow>
   substitution_idx env chk txt repl sub (idx # idxs) al =
     substitution_idx env chk txt repl sub idxs
       (al @ [alert_at env chk [sub ! idx, sub ! (idx + 1)]
                [repl ! (idx div 2 - 1), substr txt (sub ! idx, sub ! (idx + 1))]])"
  using slice_valid [of "txt" "(sub ! idx, sub ! (idx + 1))"]
  by (simp add: alert_at_def formatMessages_def)

lemma substitution_idx_groups:
  assumes "list_all (\<lambda>j. j < length (snd m)) js" and "length (snd m) \<le> length repl"
    and "list_all (\<lambda>j. valid_span txt (snd m ! j)) (filter (\<lambda>j. fst (snd m ! j) \<noteq> -1) js)"
  shows "substitution_idx env chk txt repl (flat m)
           (concat (map (\<lambda>j. [2 * j + 2, 2 * j + 3]) js)) al =
           Inr (al @ map (substitution_alert env chk repl txt)
                       (map (\<lambda>j. (j, snd m ! j)) (filter (\<lambda>j. fst (snd m ! j) \<noteq> -1) js)))"
  using assms(1,3)
proof (induction js arbitrary: al)
  case Nil
  show ?case by simp
next
  case (Cons j js)
  then have j: "j < length (snd m)" and js: "list_all (\<lambda>j. j < length (snd m)) js"
    by simp_all
  let ?rest = "concat (map (\<lambda>j. [2 * j + 2, 2 * j + 3]) js)"
  have e: "concat (map (\<lambda>j. [2 * j + 2, 2 * j + 3]) (j # js)) = (2 * j + 2) # (2 * j + 3) # ?rest"
    by simp
  have odd: "\<not> (flat m ! (2 * j + 3) \<noteq> -1 \<and> 0 < 2 * j + 3 \<and> (2 * j + 3) mod 2 = 0)"
    by presburger
  have s3: "substitution_idx env chk txt repl (flat m) ((2 * j + 3) # ?rest) al' =
            substitution_idx env chk txt repl (flat m) ?rest al'" for al'
    by (rule substitution_idx_skip [OF odd])
  show ?case
  proof (cases "fst (snd m ! j) = -1")
    case True
    then have vs: "list_all (\<lambda>j. valid_span txt (snd m ! j))
                     (filter (\<lambda>j. fst (snd m ! j) \<noteq> -1) js)"
      using Cons.prems(2) by simp
    from True have "\<not> (flat m ! (2 * j + 2) \<noteq> -1 \<and> 0 < 2 * j + 2 \<and> (2 * j + 2) mod 2 = 0)"
      by (simp only: flat_nth(1) [OF j]) simp
    then have "substitution_idx env chk txt repl (flat m) ((2 * j + 2) # (2 * j + 3) # ?rest) al =
               substitution_idx env chk txt repl (flat m) ((2 * j + 3) # ?rest) al"
      by (rule substitution_idx_skip)
    then show ?thesis
      using Cons.IH [OF js vs, of al] True by (simp only: e s3 filter.simps) simp
  next
    case False
    then have vj: "valid_span txt (snd m ! j)"
      and vs: "list_all (\<lambda>j. valid_span txt (snd m ! j))
                 (filter (\<lambda>j. fst (snd m ! j) \<noteq> -1) js)"
      using Cons.prems(2) by simp_all
    have q: "2 * j + 2 + 1 = 2 * j + 3" by simp
    have n1: "flat m ! (2 * j + 2) = fst (snd m ! j)" by (rule flat_nth(1) [OF j])
    have n2: "flat m ! (2 * j + 2 + 1) = snd (snd m ! j)"
      using flat_nth(2) [OF j] q by (simp only:)
    have p1: "flat m ! (2 * j + 2) \<noteq> -1" using False by (simp only: n1) simp
    have p2: "0 < 2 * j + 2" by simp
    have p3: "(2 * j + 2) mod 2 = 0" by presburger
    have p4: "2 * j + 2 + 1 < length (flat m)" using j by (simp add: flat_length)
    have p5: "(2 * j + 2) div 2 - 1 < length repl" using j assms(2) by simp
    have p6: "valid_span txt (flat m ! (2 * j + 2), flat m ! (2 * j + 2 + 1))"
      using vj by (simp only: n1 n2 prod.collapse)
    have al: "alert_at env chk [flat m ! (2 * j + 2), flat m ! (2 * j + 2 + 1)]
                [repl ! ((2 * j + 2) div 2 - 1),
                 substr txt (flat m ! (2 * j + 2), flat m ! (2 * j + 2 + 1))] =
              substitution_alert env chk repl txt (j, snd m ! j)"
    proof -
      have "(2 * j + 2) div 2 - 1 = j" by simp
      then show ?thesis
        by (simp only: n1 n2 substitution_alert_def loc_of_def fst_conv snd_conv prod.collapse)
    qed
    have "substitution_idx env chk txt repl (flat m) ((2 * j + 2) # (2 * j + 3) # ?rest) al =
          substitution_idx env chk txt repl (flat m) ((2 * j + 3) # ?rest)
            (al @ [substitution_alert env chk repl txt (j, snd m ! j)])"
      using substitution_idx_take [OF p1 p2 p3 p4 p5 p6, of env chk "(2 * j + 3) # ?rest" al]
      by (simp only: al)
    then show ?thesis
      using Cons.IH [OF js vs, of "al @ [substitution_alert env chk repl txt (j, snd m ! j)]"] False
      by (simp only: e s3 filter.simps) simp
  qed
qed

lemma substitution_idx_match:
  assumes "length (snd m) \<le> length repl"
    and "list_all (\<lambda>j. valid_span txt (snd m ! j)) (participating (snd m))"
  shows "substitution_idx env chk txt repl (flat m) [0..<length (flat m)] al =
           Inr (al @ map (substitution_alert env chk repl txt)
                       (map (\<lambda>j. (j, snd m ! j)) (participating (snd m))))"
proof -
  have all: "list_all (\<lambda>j. j < length (snd m)) [0..<length (snd m)]"
    by (simp add: list_all_iff)
  have v: "list_all (\<lambda>j. valid_span txt (snd m ! j))
             (filter (\<lambda>j. fst (snd m ! j) \<noteq> -1) [0..<length (snd m)])"
    using assms(2) by (simp only: participating_def)
  have "substitution_idx env chk txt repl (flat m) (0 # 1 # group_pairs (length (snd m))) al =
        substitution_idx env chk txt repl (flat m) (group_pairs (length (snd m))) al"
    by simp
  then show ?thesis
    using substitution_idx_groups [OF all assms(1) v, of env chk al]
    by (simp only: flat_length upt_group_pairs group_pairs_def participating_def)
qed

lemma substitution_matches_hits:
  assumes "list_all (\<lambda>m. length (snd m) \<le> length repl) ms"
    and "list_all (\<lambda>h. valid_span txt (snd h)) (group_hits ms)"
  shows "substitution_matches env chk txt repl ms al =
           Inr (al @ map (substitution_alert env chk repl txt) (group_hits ms))"
  using assms
proof (induction ms arbitrary: al)
  case Nil
  show ?case by (simp add: group_hits_def)
next
  case (Cons m ms)
  then have m: "length (snd m) \<le> length repl"
    and ms: "list_all (\<lambda>m. length (snd m) \<le> length repl) ms" by simp_all
  have vm: "list_all (\<lambda>j. valid_span txt (snd m ! j)) (participating (snd m))"
    and vs: "list_all (\<lambda>h. valid_span txt (snd h)) (group_hits ms)"
    using Cons.prems(2) by (simp_all add: group_hits_Cons list.pred_map comp_def)
  show ?case
    using Cons.IH [OF ms vs]
    by (simp add: substitution_idx_match [OF m vm] group_hits_Cons)
qed

lemma substitution_pairs_kept:
  "substitution_pairs kvs acc =
     (fst acc @ concat (map (\<lambda>kv. ''('' @ fst kv @ '')|'')
                          (filter (\<lambda>kv. Count (fst kv) ''('' = Count (fst kv) ''?:'') kvs)),
      snd acc @ map snd (filter (\<lambda>kv. Count (fst kv) ''('' = Count (fst kv) ''?:'') kvs))"
  by (induction kvs arbitrary: acc) simp_all

lemma group_hits_bound:
  "list_all (\<lambda>m. length (snd m) = n) ms \<Longrightarrow> h \<in> set (group_hits ms) \<Longrightarrow> fst h < n"
  by (auto simp: group_hits_def participating_def list_all_iff)

text \<open>
  What the filter of \<open>addSubstitutionCheck\<close> is for. The pattern and the list of
  replacements are built in one loop, so the \<open>j\<close>-th group-wrapped alternative of the
  pattern is the pattern of the \<open>j\<close>-th kept pair and the \<open>j\<close>-th replacement is its
  replacement, whatever the order of the loop. When the compiled pattern has exactly
  one capture group for each kept pair, and the raw text matches the pattern, every
  participating group of every match in the masked text yields exactly one alert, at
  the span of the group, that recommends the replacement of the kept pair with the
  number of the group.
\<close>

lemma substitution_aligned_without_groups:
  assumes "Compile env (template chkDef (TrimRight_bar
             (concat (map (\<lambda>kv. ''('' @ fst kv @ '')|'') (kept_pairs chkDef))))) = Inr r"
    and "cleanText env (NormedExt f) txt = Inr masked"
    and "MatchString env r txt"
    and "list_all (\<lambda>m. length (snd m) = length (kept_pairs chkDef))
           (FindAllStringSubmatchIndex env r masked)"
    and "list_all (\<lambda>h. valid_span masked (snd h))
           (group_hits (FindAllStringSubmatchIndex env r masked))"
  shows "addSubstitutionCheck env chkName chkDef st =
           Inr (updateAllChecks env chkDef
                  (RSubstitution chkDef r (map snd (kept_pairs chkDef))) st)
         \<and> substitution env txt chkDef f r (map snd (kept_pairs chkDef)) =
           Inr (map (\<lambda>h. alert_at env chkDef (loc_of (snd h))
                            [snd (kept_pairs chkDef ! fst h), substr masked (snd h)])
                  (group_hits (FindAllStringSubmatchIndex env r masked)), f)"
proof
  show "addSubstitutionCheck env chkName chkDef st =
           Inr (updateAllChecks env chkDef
                  (RSubstitution chkDef r (map snd (kept_pairs chkDef))) st)"
    using assms(1)
    by (simp add: addSubstitutionCheck_def Let_def substitution_pairs_kept kept_pairs_def
                  report_def compile_err_def CheckError_def)
next
  let ?ms = "FindAllStringSubmatchIndex env r masked"
  let ?repl = "map snd (kept_pairs chkDef)"
  have le: "list_all (\<lambda>m. length (snd m) \<le> length ?repl) ?ms"
    using assms(4) by (simp add: list_all_iff)
  have "map (substitution_alert env chkDef ?repl masked) (group_hits ?ms) =
        map (\<lambda>h. alert_at env chkDef (loc_of (snd h))
                    [snd (kept_pairs chkDef ! fst h), substr masked (snd h)]) (group_hits ?ms)"
    using group_hits_bound [OF assms(4)] by (simp add: substitution_alert_def)
  then show "substitution env txt chkDef f r ?repl =
           Inr (map (\<lambda>h. alert_at env chkDef (loc_of (snd h))
                            [snd (kept_pairs chkDef ! fst h), substr masked (snd h)])
                  (group_hits ?ms), f)"
    using assms(2,3)
    by (simp add: substitution_def substitution_matches_hits [OF le assms(5)])
qed

text \<open>
  C5 says that a match of the pattern of a kept pair recommends the replacement of
  that pair. The code fails it. \<open>addSubstitutionCheck\<close> skips a pair whose pattern has
  a capture group of its own, so that group \<open>j\<close> of the compiled pattern belongs to
  kept pair \<open>j\<close>; it recognises such a pattern by comparing the number of \<open>(\<close> with the
  number of \<open>?:\<close>, and the comparison also passes when a \<open>?:\<close> stands outside any group.
  The pattern \<open>(a)[?:]\<close> has one \<open>(\<close> and one \<open>?:\<close>: it is kept, its inner group becomes
  group 1 of the compiled pattern, and the groups of the pairs after it shift by one.
  With the pairs \<open>(a)[?:]\<close> to \<open>X\<close>, \<open>b\<close> to \<open>Y\<close> and \<open>c\<close> to \<open>Z\<close>, a match of \<open>b\<close>
  recommends \<open>Z\<close>, the replacement of \<open>c\<close>, and a match of \<open>c\<close> indexes the replacements
  out of range. With the pairs \<open>b\<close> to \<open>Y\<close> and \<open>c\<close> to \<open>Z\<close> alone, a match of \<open>b\<close>
  recommends \<open>Y\<close>.
\<close>

theorem substitution_kept_group_shifts_replacements:
  "Count ''(a)[?:]'' ''('' = 1 \<and> Count ''(a)[?:]'' ''?:'' = 1
   \<and> kept_pairs demo_substitution3 = [(''(a)[?:]'', ''X''), (''b'', ''Y''), (''c'', ''Z'')]
   \<and> (case addSubstitutionCheck demo_env ''demo.Sub'' demo_substitution3 demo_loader of
      Inl p \<Rightarrow> None
    | Inr st \<Rightarrow> map_option rule (AllChecks st ''demo.Sub'')) =
     Some (RSubstitution demo_substitution3
             (Alt (Grp [] (Cat (Grp [] (Lit ''a'')) (OneOf ''?:'')))
                  (Alt (Grp [] (Lit ''b'')) (Grp [] (Lit ''c''))))
             [''X'', ''Y'', ''Z''])
   \<and> call_rule demo_env
         (RSubstitution demo_substitution3
            (Alt (Grp [] (Cat (Grp [] (Lit ''a'')) (OneOf ''?:'')))
                 (Alt (Grp [] (Lit ''b'')) (Grp [] (Lit ''c''))))
            [''X'', ''Y'', ''Z''])
         ''b'' demo_file [] 0 =
       Inr ([\<lparr>Check = ''demo.Sub'', Severity = ''warning'', Span = [0, 1], Link_a = [],
              Message_a = ''use Z, not b'', Description_a = []\<rparr>], demo_file, [], 0)
   \<and> call_rule demo_env
         (RSubstitution demo_substitution3
            (Alt (Grp [] (Cat (Grp [] (Lit ''a'')) (OneOf ''?:'')))
                 (Alt (Grp [] (Lit ''b'')) (Grp [] (Lit ''c''))))
            [''X'', ''Y'', ''Z''])
         ''c'' demo_file [] 0 =
       Inl IndexOutOfRange
   \<and> (case addSubstitutionCheck demo_env ''demo.Sub'' demo_substitution demo_loader of
      Inl p \<Rightarrow> None
    | Inr st \<Rightarrow> map_option rule (AllChecks st ''demo.Sub'')) =
     Some (RSubstitution demo_substitution
             (Alt (Grp [] (Lit ''b'')) (Grp [] (Lit ''c''))) [''Y'', ''Z''])
   \<and> call_rule demo_env
         (RSubstitution demo_substitution
            (Alt (Grp [] (Lit ''b'')) (Grp [] (Lit ''c''))) [''Y'', ''Z''])
         ''b'' demo_file [] 0 =
       Inr ([\<lparr>Check = ''demo.Sub'', Severity = ''warning'', Span = [0, 1], Link_a = [],
              Message_a = ''use Y, not b'', Description_a = []\<rparr>], demo_file, [], 0)"
  by code_simp

subsection \<open>Masking\<close>

text \<open>
  On every text, whatever the masking pattern finds: the copy that \<open>cleanText\<close>
  returns has the length of the text, and every byte of it is the byte of the text at
  that offset or the filler character.
\<close>

lemma same_or_filler_trans:
  "same_or_filler a b \<Longrightarrow> same_or_filler b c \<Longrightarrow> same_or_filler a c"
  by (auto simp: same_or_filler_def)

lemma Replace_mask:
  "list_all2 same_or_filler t (Replace t s (replicate (length s) CHR ''*''))"
proof (induction "length t" arbitrary: t rule: less_induct)
  case less
  show ?case
  proof (cases t)
    case Nil
    then show ?thesis by simp
  next
    case (Cons x xs)
    have ih: "list_all2 same_or_filler u (Replace u s (replicate (length s) CHR ''*''))"
      if "length u \<le> length xs" for u
      using less [of u] that Cons by simp
    show ?thesis
    proof (cases "s = []")
      case True
      then show ?thesis using ih [of xs] Cons by (simp add: same_or_filler_def)
    next
      case False
      show ?thesis
      proof (cases "take (length s) (x # xs) = s")
        case hit: True
        have len: "length (take (length s) (x # xs)) = length s"
          using hit by simp
        have l1: "list_all2 same_or_filler (take (length s) (x # xs))
                    (replicate (length s) CHR ''*'')"
          using len by (simp add: list_all2_conv_all_nth same_or_filler_def)
        have dr: "drop (length s) (x # xs) = drop (length s - 1) xs"
          using False by (cases s) simp_all
        have l2: "list_all2 same_or_filler (drop (length s - 1) xs)
                    (Replace (drop (length s - 1) xs) s (replicate (length s) CHR ''*''))"
          by (rule ih) simp
        have e: "Replace (x # xs) s (replicate (length s) CHR ''*'') =
                   replicate (length s) CHR ''*'' @
                   Replace (drop (length s - 1) xs) s (replicate (length s) CHR ''*'')"
          using False hit by simp
        have "list_all2 same_or_filler
                (take (length s) (x # xs) @ drop (length s) (x # xs))
                (replicate (length s) CHR ''*'' @
                 Replace (drop (length s - 1) xs) s (replicate (length s) CHR ''*''))"
          using l1 l2 unfolding dr by (rule list_all2_appendI)
        then have "list_all2 same_or_filler (x # xs)
                (replicate (length s) CHR ''*'' @
                 Replace (drop (length s - 1) xs) s (replicate (length s) CHR ''*''))"
          by (simp only: append_take_drop_id)
        then show ?thesis by (simp only: Cons e)
      next
        case miss: False
        then show ?thesis
          using False ih [of xs] Cons by (simp add: same_or_filler_def)
      qed
    qed
  qed
qed

lemma foldl_mask_one: "list_all2 same_or_filler t (foldl mask_one t ss)"
proof (induction ss arbitrary: t)
  case Nil
  show ?case by (simp add: list_all2_refl same_or_filler_def)
next
  case (Cons s ss)
  have a: "list_all2 same_or_filler t (mask_one t s)"
    unfolding mask_one_def by (rule Replace_mask)
  have b: "list_all2 same_or_filler (mask_one t s) (foldl mask_one (mask_one t s) ss)"
    by (rule Cons.IH)
  have "list_all2 same_or_filler t (foldl mask_one (mask_one t s) ss)"
    by (rule list_all2_trans [OF _ a b]) (rule same_or_filler_trans)
  then show ?case by simp
qed

lemma cleanText_masked:
  "cleanText env ext t = Inr masked \<Longrightarrow> list_all2 same_or_filler t masked"
  using foldl_mask_one by (auto simp: cleanText_def Let_def split: sum.splits)






























lemma overwrite_cong:
  assumes "\<And>i. i < length txt \<Longrightarrow> covered as i = covered bs i"
  shows "overwrite txt as = overwrite txt bs"
  using assms by (simp add: overwrite_def)







text \<open>
  A text that \<open>only_at_matches\<close> excludes. In \<open>http://ab http://ab/x\<close> the string of
  the first match occurs again at the start of the second. \<open>cleanText\<close> replaces it
  there too, the second match is then no longer found in the text, and its tail \<open>/x\<close>
  stays as it is: the existence check flags the \<open>x\<close> at \<open>[20, 21]\<close>, inside the second
  URL.
\<close>

lemma cleanText_replaces_by_value_example:
  "FindAllStringIndex demo_env rx_url ''http://ab http://ab/x'' = [(0, 9), (10, 21)]
   \<and> overwrite ''http://ab http://ab/x'' [(0, 9), (10, 21)] = ''********* ***********''
   \<and> cleanText demo_env (NormedExt demo_file) ''http://ab http://ab/x'' =
       Inr ''********* *********/x''
   \<and> occurrences ''http://ab http://ab/x'' ''http://ab'' = [0, 10]
   \<and> \<not> only_at_matches ''http://ab http://ab/x'' [(0, 9), (10, 21)]
   \<and> call_rule demo_env (RExistence demo_existence (Lit ''x'')) ''http://ab http://ab/x''
         demo_file [] 0 =
       Inr ([\<lparr>Check = ''demo.Ban'', Severity = ''warning'', Span = [20, 21], Link_a = [],
              Message_a = ''avoid x'', Description_a = []\<rparr>], demo_file, [], 0)"
  by code_simp

end
